theory Spec2Isabelle
  imports Main "HOL-Library.Log_Nat"
begin

section \<open>Python strings\<close>

text \<open>
  A Python \<open>str\<close> is a sequence of Unicode code points. The model keeps the code points
  as natural numbers, so that the non-ASCII characters the scraped page can contain are
  values of the model. \<open>str\<close> turns an ASCII literal into such a sequence.
\<close>

type_synonym pystr = "nat list"

definition str :: "string \<Rightarrow> pystr" where
  "str s = map of_char s"

section \<open>Task Orchestrator: building the tasks (run\_scraper.py, main)\<close>

text \<open>
  \<^verbatim>\<open>
    if not categories:
        print(f"No categories found in {config.category_file}")
        return
    if not locations:
        print(f"No locations found in {config.locations_file}")
        return
    combos = [(cat, loc) for cat in categories for loc in locations]
    total = len(combos)
  \<close>
\<close>

datatype abort = No_categories | No_locations | No_parquet_outputs

definition combos :: "pystr list \<Rightarrow> pystr list \<Rightarrow> (pystr \<times> pystr) list" where
  "combos categories locations =
     concat (map (\<lambda>cat. map (\<lambda>loc. (cat, loc)) locations) categories)"

definition build_combos :: "pystr list \<Rightarrow> pystr list \<Rightarrow> abort + (pystr \<times> pystr) list" where
  "build_combos categories locations =
     (if categories = [] then Inl No_categories
      else if locations = [] then Inl No_locations
      else Inr (combos categories locations))"

section \<open>Scroll Stabilizer (scraper.py, human\_like\_scroll)\<close>

text \<open>
  The two configuration fields the loop reads. Both are Python integers taken from the
  YAML file as they are, so they may be zero or negative.
\<close>

record config =
  max_scroll_cycles :: int
  rounds_stable :: int

text \<open>
  The rendering engine is outside the repository. The model takes the page as a state of
  any type \<open>'p\<close> and the four things the loop does to it as functions: the two scroll
  scripts change the page, \<open>time.sleep\<close> lets it load for a while, and the card count
  reads it. Every behaviour of a page is a choice of these functions; calls to the engine
  are taken to return.
\<close>

record 'p page_ops =
  scroll_to_bottom :: "'p \<Rightarrow> 'p"
  sleep :: "'p \<Rightarrow> 'p"
  count_cards :: "'p \<Rightarrow> int"
  scroll_by_up :: "'p \<Rightarrow> 'p"

record 'p scroll_state =
  page :: 'p
  last_count :: int
  stable_rounds :: int

text \<open>
  What one cycle did, recorded for the proofs: the cycle number, the count it read, the
  calls it made on the page in order, and the two loop variables and the page at its end.
\<close>

datatype call = Scroll_to_bottom | Sleep | Count_cards | Scroll_by_up

record 'p entry =
  e_cycle :: int
  e_count :: int
  e_calls :: "call list"
  e_last :: int
  e_stable :: int
  e_page :: 'p

text \<open>
  The body of the loop up to the test that breaks out of it:
  \<^verbatim>\<open>
        page.evaluate("window.scrollTo(0, document.body.scrollHeight);")
        delay = random.uniform(config.scroll_delay_min, config.scroll_delay_max)
        time.sleep(delay)
        count = page.evaluate("Array.from(document.querySelectorAll(...)).length")
        if count == last_count:
            stable_rounds += 1
        else:
            stable_rounds = 0
            last_count = count
        if stable_rounds == 1:
            page.evaluate("window.scrollBy(0, -Math.floor(window.innerHeight * 0.4));")
  \<close>
\<close>

definition scroll_cycle :: "'p page_ops \<Rightarrow> int \<Rightarrow> 'p scroll_state \<Rightarrow> 'p scroll_state \<times> 'p entry" where
  "scroll_cycle B cycle st =
     (let p1 = scroll_to_bottom B (page st);
          p2 = sleep B p1;
          count = count_cards B p2;
          stable_rounds' = (if count = last_count st then stable_rounds st + 1 else 0);
          last_count' = (if count = last_count st then last_count st else count);
          p3 = (if stable_rounds' = 1 then scroll_by_up B p2 else p2)
      in (\<lparr>page = p3, last_count = last_count', stable_rounds = stable_rounds'\<rparr>,
          \<lparr>e_cycle = cycle, e_count = count,
           e_calls = [Scroll_to_bottom, Sleep, Count_cards]
                     @ (if stable_rounds' = 1 then [Scroll_by_up] else []),
           e_last = last_count', e_stable = stable_rounds', e_page = p3\<rparr>))"

text \<open>
  The loop \<^verbatim>\<open>for cycle in range(1, config.max_scroll_cycles + 1)\<close> runs over the
  list of cycle numbers; \<^verbatim>\<open>if stable_rounds >= config.rounds_stable: break\<close> leaves it.
\<close>

fun scroll_loop ::
  "'p page_ops \<Rightarrow> config \<Rightarrow> int list \<Rightarrow> 'p scroll_state \<Rightarrow> 'p scroll_state \<times> 'p entry list" where
  "scroll_loop B cfg [] st = (st, [])"
| "scroll_loop B cfg (cycle # rest) st =
     (let (st', e) = scroll_cycle B cycle st
      in if stable_rounds st' \<ge> rounds_stable cfg then (st', [e])
         else (let (st'', es) = scroll_loop B cfg rest st' in (st'', e # es)))"

definition human_like_scroll ::
  "'p page_ops \<Rightarrow> config \<Rightarrow> 'p \<Rightarrow> 'p scroll_state \<times> 'p entry list" where
  "human_like_scroll B cfg p =
     scroll_loop B cfg [1..max_scroll_cycles cfg] \<lparr>page = p, last_count = 0, stable_rounds = 0\<rparr>"

text \<open>
  The rule of section 4.3 of the specification, read over the entries of a run that
  starts with page \<open>p\<close> and the loop variables \<open>lc\<close> and \<open>sr\<close>: the count of an
  entry is the one the page shows after the scroll to the bottom and the wait, the loop
  variables follow from those before the cycle, the page is scrolled up exactly when the
  stable count is 1 after the update and is left as it was otherwise, an entry that
  reaches the configured number of stable rounds is the last one, and the next cycle
  starts from the page and the variables this one ends with.
\<close>

fun follows_rule :: "'p page_ops \<Rightarrow> config \<Rightarrow> 'p \<Rightarrow> int \<Rightarrow> int \<Rightarrow> 'p entry list \<Rightarrow> bool" where
  "follows_rule B cfg p lc sr [] = True"
| "follows_rule B cfg p lc sr (e # es) =
     (e_count e = count_cards B (sleep B (scroll_to_bottom B p))
      \<and> (if e_count e = lc then e_stable e = sr + 1 \<and> e_last e = lc
          else e_stable e = 0 \<and> e_last e = e_count e)
      \<and> (e_stable e = 1
            \<and> e_calls e = [Scroll_to_bottom, Sleep, Count_cards, Scroll_by_up]
            \<and> e_page e = scroll_by_up B (sleep B (scroll_to_bottom B p))
          \<or> e_stable e \<noteq> 1
            \<and> e_calls e = [Scroll_to_bottom, Sleep, Count_cards]
            \<and> e_page e = sleep B (scroll_to_bottom B p))
      \<and> (e_stable e \<ge> rounds_stable cfg \<longrightarrow> es = [])
      \<and> follows_rule B cfg (e_page e) (e_last e) (e_stable e) es)"

text \<open>A page that shows one more card after every scroll to the bottom: it never stabilizes.\<close>

definition growing_page :: "int page_ops" where
  "growing_page = \<lparr>scroll_to_bottom = (\<lambda>n. n + 1), sleep = (\<lambda>n. n),
                    count_cards = (\<lambda>n. n), scroll_by_up = (\<lambda>n. n)\<rparr>"

text \<open>
  A page that keeps its number of cards and counts how often it has been scrolled up, so
  that an upward scroll can be told from none.
\<close>

definition nudge_counting_page :: "(int \<times> nat) page_ops" where
  "nudge_counting_page =
     \<lparr>scroll_to_bottom = (\<lambda>(n, k). (n, k)), sleep = (\<lambda>(n, k). (n, k)),
      count_cards = (\<lambda>(n, k). n), scroll_by_up = (\<lambda>(n, k). (n, Suc k))\<rparr>"

text \<open>A page with a fixed number of cards.\<close>

definition fixed_page :: "int page_ops" where
  "fixed_page = \<lparr>scroll_to_bottom = (\<lambda>n. n), sleep = (\<lambda>n. n),
                  count_cards = (\<lambda>n. n), scroll_by_up = (\<lambda>n. n)\<rparr>"

section \<open>Character classes of Python strings\<close>

text \<open>
  \<open>str.isalnum\<close>, \<open>str.isdigit\<close> and \<open>str.strip\<close> follow the Unicode character
  database, not the ASCII ranges. The model gives every code point one class:
  \<^item> \<open>Decimal d\<close>: a decimal digit of value \<open>d\<close> (\<open>isdecimal\<close>, \<open>isdigit\<close> and
    \<open>isalnum\<close> hold; \<open>float\<close> reads it as the digit \<open>d\<close>);
  \<^item> \<open>Digit\<close>: a digit that is not decimal, such as a superscript (\<open>isdigit\<close> and
    \<open>isalnum\<close> hold; \<open>float\<close> rejects it);
  \<^item> \<open>Alnum\<close>: a letter or another numeric character (only \<open>isalnum\<close> holds);
  \<^item> \<open>Space\<close>: white space (\<open>isspace\<close> holds);
  \<^item> \<open>Other\<close>: everything else.
  The ASCII rows are written out. The rows from code point 128 on are the parameter
  \<open>U\<close> of every function that classifies characters, so that a theorem stated for
  every \<open>U\<close> holds for the database of any Python version.
\<close>

datatype uclass = Decimal nat | Digit | Alnum | Space | Other

definition ascii_class :: "nat \<Rightarrow> uclass" where
  "ascii_class c =
     (if 48 \<le> c \<and> c \<le> 57 then Decimal (c - 48)
      else if (65 \<le> c \<and> c \<le> 90) \<or> (97 \<le> c \<and> c \<le> 122) then Alnum
      else if c = 32 \<or> (9 \<le> c \<and> c \<le> 13) \<or> (28 \<le> c \<and> c \<le> 31) then Space
      else Other)"

definition classify :: "(nat \<Rightarrow> uclass) \<Rightarrow> nat \<Rightarrow> uclass" where
  "classify U c = (if c < 128 then ascii_class c else U c)"

definition isalnum :: "(nat \<Rightarrow> uclass) \<Rightarrow> nat \<Rightarrow> bool" where
  "isalnum U c = (case classify U c of Decimal d \<Rightarrow> True | Digit \<Rightarrow> True | Alnum \<Rightarrow> True | _ \<Rightarrow> False)"

definition isdigit :: "(nat \<Rightarrow> uclass) \<Rightarrow> nat \<Rightarrow> bool" where
  "isdigit U c = (case classify U c of Decimal d \<Rightarrow> True | Digit \<Rightarrow> True | _ \<Rightarrow> False)"

definition isspace :: "(nat \<Rightarrow> uclass) \<Rightarrow> nat \<Rightarrow> bool" where
  "isspace U c = (classify U c = Space)"

text \<open>
  A few rows of the database, for the examples that contain a character outside ASCII:
  U+00A0 is white space, U+00B2 (superscript two) is a digit that is not decimal, U+00E9
  (e with acute accent) is a letter, U+0660 to U+0669 are the Arabic-Indic decimal
  digits, and U+2014 (the em dash) is punctuation, as is every code point not listed.
\<close>

definition unicode_excerpt :: "nat \<Rightarrow> uclass" where
  "unicode_excerpt c =
     (if c = 0xA0 then Space
      else if c = 0xB2 then Digit
      else if c = 0xE9 then Alnum
      else if 0x660 \<le> c \<and> c \<le> 0x669 then Decimal (c - 0x660)
      else Other)"

text \<open>\<open>s.strip()\<close> and \<open>s.replace(" ", "_")\<close> on a string.\<close>

definition strip :: "(nat \<Rightarrow> uclass) \<Rightarrow> pystr \<Rightarrow> pystr" where
  "strip U s = rev (dropWhile (isspace U) (rev (dropWhile (isspace U) s)))"

definition replace_char :: "nat \<Rightarrow> nat \<Rightarrow> pystr \<Rightarrow> pystr" where
  "replace_char old new s = map (\<lambda>ch. if ch = old then new else ch) s"

section \<open>Artifact file names (scraper.py, scrape\_one\_category\_location)\<close>

text \<open>
  The source sanitizes the vendor name and the location with the same expression:
  \<^verbatim>\<open>
    safe_vendor = (
        "".join(ch if ch.isalnum() or ch in " _-" else "_" for ch in vendor)
        .strip()
        .replace(" ", "_")
    )
    safe_loc = "".join(ch if ch.isalnum() or ch in " _-" else "_" for ch in location).strip().replace(" ", "_")
    out_name = f"{safe_vendor}__{safe_loc}__{ts}.parquet"
  \<close>
\<close>

definition safe_char :: "(nat \<Rightarrow> uclass) \<Rightarrow> nat \<Rightarrow> nat" where
  "safe_char U ch = (if isalnum U ch \<or> ch \<in> set (str '' _-'') then ch else 95)"

definition sanitize :: "(nat \<Rightarrow> uclass) \<Rightarrow> pystr \<Rightarrow> pystr" where
  "sanitize U s = replace_char 32 95 (strip U (map (safe_char U) s))"

definition out_name :: "(nat \<Rightarrow> uclass) \<Rightarrow> pystr \<Rightarrow> pystr \<Rightarrow> pystr \<Rightarrow> pystr" where
  "out_name U vendor location ts =
     sanitize U vendor @ str ''__'' @ sanitize U location @ str ''__'' @ ts @ str ''.parquet''"

text \<open>
  The rule as the specification words it: every character outside \<open>[A-Za-z0-9 _-]\<close>
  becomes \<open>_\<close>, then spaces become \<open>_\<close>.
\<close>

definition spec_allowed :: "nat \<Rightarrow> bool" where
  "spec_allowed c =
     ((65 \<le> c \<and> c \<le> 90) \<or> (97 \<le> c \<and> c \<le> 122) \<or> (48 \<le> c \<and> c \<le> 57)
      \<or> c = 32 \<or> c = 95 \<or> c = 45)"

definition spec_sanitize :: "pystr \<Rightarrow> pystr" where
  "spec_sanitize s = replace_char 32 95 (map (\<lambda>ch. if spec_allowed ch then ch else 95) s)"

text \<open>Dropping the spaces (U+0020) at both ends of a string.\<close>

definition trim_spaces :: "pystr \<Rightarrow> pystr" where
  "trim_spaces s = rev (dropWhile (\<lambda>ch. ch = 32) (rev (dropWhile (\<lambda>ch. ch = 32) s)))"

section \<open>Python floats\<close>

text \<open>
  A Python \<open>float\<close> is an IEEE 754 double: a finite value, which is a rational number,
  one of the two infinities, or NaN. The sign of a zero is not kept: it could only change
  the sign of an infinity obtained by dividing by that zero, and the aggregator discards
  every quotient whose divisor is not greater than zero.

  \<open>rnd\<close> rounds a rational to the nearest double, ties to even, as the conversion of a
  decimal string and each arithmetic operation do: a magnitude of at least
  \<open>2^1024 - 2^970\<close> overflows to an infinity; below it the result is a multiple of
  \<open>2^(e - 52)\<close>, where \<open>2^e\<close> is the largest power of two not above the magnitude and
  \<open>e\<close> is at least \<open>-1022\<close>.
\<close>

datatype pfloat = Fin rat | PInf | NInf | NaN

definition pow2 :: "int \<Rightarrow> rat" where
  "pow2 k = (if 0 \<le> k then 2 ^ nat k else 1 / 2 ^ nat (- k))"

definition ilog2 :: "rat \<Rightarrow> int" where
  "ilog2 a =
     (let (n, d) = quotient_of a;
          k = bitlen n - bitlen d
      in if pow2 k \<le> a then k else k - 1)"

definition round_half_even :: "rat \<Rightarrow> int" where
  "round_half_even r =
     (let f = \<lfloor>r\<rfloor>; d = r - of_int f
      in if d < 1 / 2 then f else if 1 / 2 < d then f + 1 else if even f then f else f + 1)"

definition nearest_double :: "rat \<Rightarrow> rat" where
  "nearest_double a =
     (let e = max (ilog2 a) (- 1022); q = pow2 (e - 52)
      in of_int (round_half_even (a / q)) * q)"

definition overflow_threshold :: rat where
  "overflow_threshold = 2 ^ 1024 - 2 ^ 970"

definition rnd :: "rat \<Rightarrow> pfloat" where
  "rnd x =
     (if overflow_threshold \<le> \<bar>x\<bar> then (if 0 < x then PInf else NInf)
      else if x = 0 then Fin 0
      else if 0 < x then Fin (nearest_double x)
      else Fin (- nearest_double (- x)))"

text \<open>Subtraction, division and multiplication of doubles, and the comparison \<open>x > 0\<close>.\<close>

fun fsub :: "pfloat \<Rightarrow> pfloat \<Rightarrow> pfloat" where
  "fsub NaN _ = NaN"
| "fsub _ NaN = NaN"
| "fsub PInf PInf = NaN"
| "fsub NInf NInf = NaN"
| "fsub PInf _ = PInf"
| "fsub NInf _ = NInf"
| "fsub (Fin x) PInf = NInf"
| "fsub (Fin x) NInf = PInf"
| "fsub (Fin x) (Fin y) = rnd (x - y)"

definition fneg :: "pfloat \<Rightarrow> pfloat" where
  "fneg a = (case a of Fin x \<Rightarrow> Fin (- x) | PInf \<Rightarrow> NInf | NInf \<Rightarrow> PInf | NaN \<Rightarrow> NaN)"

definition is_negative :: "pfloat \<Rightarrow> bool" where
  "is_negative a = (case a of Fin x \<Rightarrow> x < 0 | NInf \<Rightarrow> True | _ \<Rightarrow> False)"

definition is_inf :: "pfloat \<Rightarrow> bool" where
  "is_inf a = (a = PInf \<or> a = NInf)"

definition is_finite :: "pfloat \<Rightarrow> bool" where
  "is_finite a = (case a of Fin x \<Rightarrow> True | _ \<Rightarrow> False)"

definition signed_inf :: "bool \<Rightarrow> pfloat" where
  "signed_inf negative = (if negative then NInf else PInf)"

definition fdiv :: "pfloat \<Rightarrow> pfloat \<Rightarrow> pfloat" where
  "fdiv a b =
     (if a = NaN \<or> b = NaN then NaN
      else if is_inf a then (if is_inf b then NaN else signed_inf (is_negative a \<noteq> is_negative b))
      else if is_inf b then Fin 0
      else (case (a, b) of
              (Fin x, Fin y) \<Rightarrow>
                 if y = 0 then (if x = 0 then NaN else signed_inf (x < 0)) else rnd (x / y)
            | _ \<Rightarrow> NaN))"

definition fmul :: "pfloat \<Rightarrow> pfloat \<Rightarrow> pfloat" where
  "fmul a b =
     (if a = NaN \<or> b = NaN then NaN
      else if is_inf a \<or> is_inf b then
        (if a = Fin 0 \<or> b = Fin 0 then NaN else signed_inf (is_negative a \<noteq> is_negative b))
      else (case (a, b) of (Fin x, Fin y) \<Rightarrow> rnd (x * y) | _ \<Rightarrow> NaN))"

definition fgt0 :: "pfloat \<Rightarrow> bool" where
  "fgt0 a = (case a of Fin x \<Rightarrow> 0 < x | PInf \<Rightarrow> True | _ \<Rightarrow> False)"

section \<open>Exceptions\<close>

text \<open>
  The handlers of the repository are \<^verbatim>\<open>except ValueError\<close> and
  \<^verbatim>\<open>except Exception\<close>. A raised value is a \<open>ValueError\<close>, another instance of
  \<open>Exception\<close>, or a \<open>BaseException\<close> outside \<open>Exception\<close> (\<open>KeyboardInterrupt\<close>,
  \<open>SystemExit\<close>), each with its message.
\<close>

datatype exn = ValueError pystr | Other_Exception pystr | Non_Exception pystr

definition is_Exception :: "exn \<Rightarrow> bool" where
  "is_Exception e = (case e of Non_Exception m \<Rightarrow> False | _ \<Rightarrow> True)"

definition message :: "exn \<Rightarrow> pystr" where
  "message e = (case e of ValueError m \<Rightarrow> m | Other_Exception m \<Rightarrow> m | Non_Exception m \<Rightarrow> m)"

section \<open>Price parsing (scraper.py, parse\_price inside combine\_outputs)\<close>

text \<open>
  \<open>float(x)\<close> on the strings \<open>parse_price\<close> passes to it, which consist of digits in the
  sense of \<open>str.isdigit\<close>, \<open>.\<close> and \<open>-\<close>. CPython first turns every decimal digit outside
  ASCII into its ASCII digit and white space into a blank; any other character outside
  ASCII makes the string invalid. The text must then be an optional \<open>-\<close>, digits with an
  optional \<open>.\<close> and further digits, or a \<open>.\<close> followed by digits; anything else raises
  \<open>ValueError\<close>. The value is the decimal denoted, correctly rounded. (The signs,
  exponents, underscores, blanks and the words \<open>inf\<close> and \<open>nan\<close> that \<open>float\<close> also
  accepts need characters that \<open>parse_price\<close> has removed; the model rejects them.)
\<close>

definition ascii_of :: "(nat \<Rightarrow> uclass) \<Rightarrow> nat \<Rightarrow> nat option" where
  "ascii_of U c =
     (if c < 127 then Some c
      else case classify U c of Decimal d \<Rightarrow> Some (48 + d) | Space \<Rightarrow> Some 32 | _ \<Rightarrow> None)"

definition is_ascii_digit :: "nat \<Rightarrow> bool" where
  "is_ascii_digit c = (48 \<le> c \<and> c \<le> 57)"

definition digits_value :: "nat list \<Rightarrow> int" where
  "digits_value ds = foldl (\<lambda>acc c. 10 * acc + (int c - 48)) 0 ds"

definition float_of_str :: "(nat \<Rightarrow> uclass) \<Rightarrow> pystr \<Rightarrow> exn + pfloat" where
  "float_of_str U s =
     (case those (map (ascii_of U) s) of
        None \<Rightarrow> Inl (ValueError s)
      | Some a \<Rightarrow>
          (let negative = (a \<noteq> [] \<and> hd a = 45);
               body = (if negative then tl a else a);
               int_part = takeWhile is_ascii_digit body;
               rest = dropWhile is_ascii_digit body;
               has_point = (rest \<noteq> [] \<and> hd rest = 46);
               frac_part = (if has_point then tl rest else rest)
           in if (\<not> has_point \<and> rest \<noteq> []) \<or> \<not> list_all is_ascii_digit frac_part
                 \<or> (int_part = [] \<and> frac_part = [])
              then Inl (ValueError s)
              else (let v = of_int (digits_value int_part)
                            + of_int (digits_value frac_part) / 10 ^ length frac_part
                    in Inr (rnd (if negative then - v else v)))))"

text \<open>
  A cell of a table column: a string, or one of the other Python values a column can
  hold (a missing entry is \<open>None\<close> or the float NaN).
\<close>

datatype pyval = PStr pystr | PNone | PFloat pfloat | PInt int | PBool bool

text \<open>
  \<^verbatim>\<open>
    def parse_price(s):
        if not isinstance(s, str):
            return None
        digits = "".join(ch if ch.isdigit() or ch in ".,-" else "" for ch in s)
        if not digits:
            return None
        try:
            return float(digits.replace(",", "."))
        except ValueError:
            return None
  \<close>
  The result is \<open>Inr None\<close> for Python's \<open>None\<close>, \<open>Inr (Some x)\<close> for a float, and
  \<open>Inl e\<close> when an exception leaves the function.
\<close>

definition price_char :: "(nat \<Rightarrow> uclass) \<Rightarrow> nat \<Rightarrow> bool" where
  "price_char U ch = (isdigit U ch \<or> ch \<in> set (str ''.,-''))"

definition parse_price :: "(nat \<Rightarrow> uclass) \<Rightarrow> pyval \<Rightarrow> exn + pfloat option" where
  "parse_price U s =
     (case s of
        PStr t \<Rightarrow>
          (let digits = filter (price_char U) t
           in if digits = [] then Inr None
              else (case float_of_str U (replace_char 44 46 digits) of
                      Inr x \<Rightarrow> Inr (Some x)
                    | Inl (ValueError m) \<Rightarrow> Inr None
                    | Inl e \<Rightarrow> Inl e))
      | _ \<Rightarrow> Inr None)"

definition isinstance_str :: "pyval \<Rightarrow> bool" where
  "isinstance_str v = (case v of PStr t \<Rightarrow> True | _ \<Rightarrow> False)"

text \<open>
  \<^verbatim>\<open>full["price"].apply(parse_price)\<close>: the function is applied to every cell of a
  column, an exception in any call leaves \<open>apply\<close>, and the results form a float column
  in which \<open>None\<close> is stored as NaN.
\<close>

definition to_float_cell :: "pfloat option \<Rightarrow> pfloat" where
  "to_float_cell r = (case r of None \<Rightarrow> NaN | Some x \<Rightarrow> x)"

fun apply_parse_price :: "(nat \<Rightarrow> uclass) \<Rightarrow> pyval list \<Rightarrow> exn + pfloat list" where
  "apply_parse_price U [] = Inr []"
| "apply_parse_price U (v # vs) =
     (case parse_price U v of
        Inl e \<Rightarrow> Inl e
      | Inr r \<Rightarrow> (case apply_parse_price U vs of
                    Inl e \<Rightarrow> Inl e
                  | Inr rs \<Rightarrow> Inr (to_float_cell r # rs)))"

section \<open>Product records and the Aggregator (scraper.py, combine\_outputs)\<close>

text \<open>
  One row of a per-task table, with the columns \<open>extract_products\<close> writes. The script
  run in the page returns every text field as a string; \<open>old_price\<close> is kept as a cell
  of any kind, so that a table in which that column is missing (its cells are then
  \<open>None\<close> or NaN) is a value of the model.
\<close>

record product =
  seen_order :: int
  name :: pystr
  quantity :: pystr
  price :: pystr
  old_price :: pyval
  image_url :: pystr
  out_of_stock :: bool
  sku :: pystr
  category_url :: pystr
  location_used :: pystr
  timestamp :: pystr

text \<open>
  \<^verbatim>\<open>
    full.drop_duplicates(
        subset=["category_url", "location_used", "name", "quantity", "price"],
        keep="first", inplace=True)
  \<close>
  pandas goes through the rows in order and drops a row when the values of the subset
  columns have been seen in an earlier row.
\<close>

definition dedup_key :: "product \<Rightarrow> pystr \<times> pystr \<times> pystr \<times> pystr \<times> pystr" where
  "dedup_key r = (category_url r, location_used r, name r, quantity r, price r)"

fun keep_first :: "('a \<Rightarrow> 'k) \<Rightarrow> 'k set \<Rightarrow> 'a list \<Rightarrow> 'a list" where
  "keep_first key seen [] = []"
| "keep_first key seen (r # rs) =
     (if key r \<in> seen then keep_first key seen rs
      else r # keep_first key (insert (key r) seen) rs)"

definition drop_duplicates :: "product list \<Rightarrow> product list" where
  "drop_duplicates full = keep_first dedup_key {} full"

text \<open>
  \<^verbatim>\<open>
    full["discount_percent"] = (
        (full["old_price_numeric"] - full["price_numeric"])
        / full["old_price_numeric"]
        * 100
    ).where(
        (full["old_price_numeric"].notna())
        & (full["price_numeric"].notna())
        & (full["old_price_numeric"] > 0),
        None,
    )
  \<close>
  The arithmetic is done on every row, NaN standing for a missing number, and \<open>where\<close>
  then replaces the result by the missing value NaN in the rows that fail the condition.
\<close>

definition notna :: "pfloat \<Rightarrow> bool" where
  "notna a = (a \<noteq> NaN)"

definition discount :: "pfloat \<Rightarrow> pfloat \<Rightarrow> pfloat" where
  "discount price_n old_n =
     (let computed = fmul (fdiv (fsub old_n price_n) old_n) (Fin 100)
      in if notna old_n \<and> notna price_n \<and> fgt0 old_n then computed else NaN)"

record combined_row =
  row :: product
  price_numeric :: pfloat
  old_price_numeric :: pfloat
  discount_percent :: pfloat

definition add_columns :: "(nat \<Rightarrow> uclass) \<Rightarrow> product list \<Rightarrow> exn + combined_row list" where
  "add_columns U full =
     (case apply_parse_price U (map (\<lambda>r. PStr (price r)) full) of
        Inl e \<Rightarrow> Inl e
      | Inr price_col \<Rightarrow>
          (case apply_parse_price U (map old_price full) of
             Inl e \<Rightarrow> Inl e
           | Inr old_col \<Rightarrow>
               Inr (map (\<lambda>(r, p, old). \<lparr>row = r, price_numeric = p, old_price_numeric = old,
                                        discount_percent = discount p old\<rparr>)
                        (zip full (zip price_col old_col)))))"

text \<open>
  Reading the artifacts. \<open>pd.read_parquet\<close> is outside the repository and is a
  parameter: for a path it returns a table or raises. A table read is either one with
  the columns \<open>extract_products\<close> writes, given by its rows, or a table that has no
  column and no row, which is what reading a directory without any file yields. (A table
  with only some of the columns is not a value of the model.) The loop keeps the tables
  that were read and skips a file whose read raised an \<open>Exception\<close>:
  \<^verbatim>\<open>
    for p in tqdm(parquet_files, desc="Reading parquet files"):
        try:
            df = pd.read_parquet(p)
            dfs.append(df)
        except Exception as e:
            print(f"Failed to read {p}: {e}")
  \<close>
\<close>

datatype frame = Table "product list" | No_columns

definition frame_rows :: "frame \<Rightarrow> product list" where
  "frame_rows df = (case df of Table rs \<Rightarrow> rs | No_columns \<Rightarrow> [])"

fun read_frames :: "(pystr \<Rightarrow> exn + frame) \<Rightarrow> pystr list \<Rightarrow> exn + frame list" where
  "read_frames read_parquet [] = Inr []"
| "read_frames read_parquet (p # ps) =
     (case read_parquet p of
        Inl e \<Rightarrow> (if is_Exception e then read_frames read_parquet ps else Inl e)
      | Inr df \<Rightarrow> (case read_frames read_parquet ps of
                     Inl e \<Rightarrow> Inl e
                   | Inr dfs \<Rightarrow> Inr (df # dfs)))"

text \<open>
  \<open>combine_outputs\<close> returns without writing a dataset when it is given no file or can
  read none (\<open>Inr None\<close>); otherwise it concatenates the tables in reading order, drops
  the duplicates, adds the three derived columns and writes the result, which is what
  the model returns. When none of the tables read has a column, the concatenation has
  none either, and \<open>drop_duplicates\<close> raises \<open>KeyError\<close> for the missing key
  columns; nothing in \<open>combine_outputs\<close> or in \<open>main\<close> catches it. Writing the
  workbook is taken to succeed.
  \<^verbatim>\<open>
    if not dfs:
        print("No valid dataframes read.")
        return config.output_dir / config.combined_filename
    full = pd.concat(dfs, ignore_index=True)
    full.drop_duplicates(subset=[...], keep="first", inplace=True)
  \<close>
\<close>

definition combine_outputs ::
  "(nat \<Rightarrow> uclass) \<Rightarrow> (pystr \<Rightarrow> exn + frame) \<Rightarrow> pystr list \<Rightarrow> exn + combined_row list option" where
  "combine_outputs U read_parquet parquet_files =
     (if parquet_files = [] then Inr None
      else (case read_frames read_parquet parquet_files of
              Inl e \<Rightarrow> Inl e
            | Inr dfs \<Rightarrow>
                if dfs = [] then Inr None
                else if list_all (\<lambda>df. df = No_columns) dfs
                then Inl (Other_Exception (str ''KeyError''))
                else (case add_columns U (drop_duplicates (concat (map frame_rows dfs))) of
                        Inl e \<Rightarrow> Inl e
                      | Inr rows \<Rightarrow> Inr (Some rows))))"

text \<open>
  The number a cell contributes to a numeric column, and the expected discount of a row
  stated from the two parsed prices.
\<close>

definition numeric :: "(nat \<Rightarrow> uclass) \<Rightarrow> pyval \<Rightarrow> pfloat" where
  "numeric U v = (case parse_price U v of Inr r \<Rightarrow> to_float_cell r | Inl e \<Rightarrow> NaN)"

definition expected_discount :: "(nat \<Rightarrow> uclass) \<Rightarrow> product \<Rightarrow> pfloat" where
  "expected_discount U r =
     (case (parse_price U (PStr (price r)), parse_price U (old_price r)) of
        (Inr (Some p), Inr (Some old)) \<Rightarrow>
           if fgt0 old then fmul (fdiv (fsub old p) old) (Fin 100) else NaN
      | _ \<Rightarrow> NaN)"

text \<open>
  Sample rows and a sample store: two paths hold tables, the path \<open>.\<close> reads as a table
  without columns, and every other path cannot be read.
\<close>

definition sample_row :: "string \<Rightarrow> string \<Rightarrow> pyval \<Rightarrow> product" where
  "sample_row n p old =
     \<lparr>seen_order = 1, name = str n, quantity = str ''1 kg'', price = str p, old_price = old,
      image_url = [], out_of_stock = False, sku = [], category_url = str ''c1'',
      location_used = str ''Maadi'', timestamp = str ''2025-01-01T10:00:00''\<rparr>"

definition sample_read :: "pystr \<Rightarrow> exn + frame" where
  "sample_read p =
     (if p = str ''a'' then Inr (Table [sample_row ''Rice'' ''EGP 75'' (PStr (str ''EGP 100'')),
                                        sample_row ''Tea'' ''120,00'' PNone])
      else if p = str ''b'' then Inr (Table [sample_row ''Rice'' ''EGP 75'' (PStr (str ''EGP 90''))])
      else if p = str ''.'' then Inr No_columns
      else Inl (Other_Exception p))"

section \<open>Running one task and collecting the results (scrape\_one\_category\_location, main)\<close>

text \<open>
  Paths are kept as their text. \<open>Path()\<close> is the path \<open>.\<close>, the current directory,
  which exists for every running process; \<open>on_disk\<close> is the set of the other paths
  that exist on storage. A \<open>Path\<close> object has neither \<open>__bool__\<close> nor \<open>__len__\<close>, so it is
  true in a condition whatever its text.
\<close>

definition Path_empty :: pystr where
  "Path_empty = str ''.''"

definition path_join :: "pystr \<Rightarrow> pystr \<Rightarrow> pystr" where
  "path_join dir file_name = dir @ str ''/'' @ file_name"

definition path_exists :: "pystr set \<Rightarrow> pystr \<Rightarrow> bool" where
  "path_exists on_disk p = (p = Path_empty \<or> p \<in> on_disk)"

definition path_truthy :: "pystr \<Rightarrow> bool" where
  "path_truthy p = True"

text \<open>The lines the model keeps of what is printed.\<close>

datatype printed =
    No_products_found
  | Saved_rows nat pystr
  | No_data_saved pystr pystr
  | Error_in_combo pystr pystr pystr
  | No_parquet_outputs_found

text \<open>
  The browser part of a task (everything inside \<^verbatim>\<open>with sync_playwright() as p\<close>)
  either raises or yields the table extracted and the vendor name; that outcome is the
  argument \<open>session\<close>, and \<open>ts\<close> is the time stamp taken when the file name is built.
  The rest of the function is
  \<^verbatim>\<open>
            df = extract_products(page, category_url, location)
            if df.empty:
                print("No products found for this combo.")
            vendor = get_vendor_name(page, category_url)
        ...
    if df.empty:
        # Return a dummy path
        return category_url, location, Path()
    ...
    out_name = f"{safe_vendor}__{safe_loc}__{ts}.parquet"
    out_path = config.output_dir / out_name
    df.to_parquet(out_path, index=False)
    print(f"Saved {len(df)} rows to {out_path}")
    return category_url, location, out_path
  \<close>
  Writing the file is taken to succeed. The function returns the files on storage after
  the call, the lines printed, and the value returned or the exception raised.
\<close>

type_synonym session = "exn + product list \<times> pystr"

definition scrape_one_category_location ::
  "(nat \<Rightarrow> uclass) \<Rightarrow> pystr \<Rightarrow> pystr set \<Rightarrow> pystr \<Rightarrow> pystr \<Rightarrow> session \<Rightarrow> pystr
     \<Rightarrow> pystr set \<times> printed list \<times> (exn + pystr \<times> pystr \<times> pystr)" where
  "scrape_one_category_location U output_dir on_disk cat_url location session ts =
     (case session of
        Inl e \<Rightarrow> (on_disk, [], Inl e)
      | Inr (df, vendor) \<Rightarrow>
          if df = [] then (on_disk, [No_products_found], Inr (cat_url, location, Path_empty))
          else (let out_path = path_join output_dir (out_name U vendor location ts)
                in (insert out_path on_disk, [Saved_rows (length df) out_path],
                    Inr (cat_url, location, out_path))))"

text \<open>
  The orchestrator's state while it collects, and the body of its loop over the
  completed futures:
  \<^verbatim>\<open>
            cat, loc = future_to_combo[future]
            try:
                _cat, _loc, out_path = future.result()
                if out_path and out_path.exists():
                    parquet_files.append(out_path)
                else:
                    print(f"No data saved for combo: {cat} @ {loc}")
            except Exception as e:
                print(f"Error in combo {cat} @ {loc}: {e}")
  \<close>
  \<open>future.result()\<close> returns what the task returned or raises what it raised. An
  exception that is not an \<open>Exception\<close> passes the handler and leaves the loop.
\<close>

record main_state =
  storage :: "pystr set"
  parquet_files :: "pystr list"
  printed :: "printed list"

definition collect_result ::
  "pystr \<times> pystr \<Rightarrow> exn + pystr \<times> pystr \<times> pystr \<Rightarrow> main_state \<Rightarrow> exn + main_state" where
  "collect_result combo result st =
     (case combo of (cat, loc) \<Rightarrow>
        (case result of
           Inr (cat', loc', out_path) \<Rightarrow>
             if path_truthy out_path \<and> path_exists (storage st) out_path
             then Inr (st\<lparr>parquet_files := parquet_files st @ [out_path]\<rparr>)
             else Inr (st\<lparr>printed := printed st @ [No_data_saved cat loc]\<rparr>)
         | Inl e \<Rightarrow>
             if is_Exception e
             then Inr (st\<lparr>printed := printed st @ [Error_in_combo cat loc (message e)]\<rparr>)
             else Inl e))"

text \<open>
  The tasks run in separate processes and their results are collected in the order in
  which they complete. The model takes the tasks in that order, each with the outcome of
  its browser session and its time stamp, runs a task and then collects its result. A
  task writes its file before its result is collected, and no task removes a file.
\<close>

type_synonym task = "(pystr \<times> pystr) \<times> session \<times> pystr"

fun run_tasks :: "(nat \<Rightarrow> uclass) \<Rightarrow> pystr \<Rightarrow> task list \<Rightarrow> main_state \<Rightarrow> exn + main_state" where
  "run_tasks U output_dir [] st = Inr st"
| "run_tasks U output_dir (((cat, loc), session, ts) # rest) st =
     (case scrape_one_category_location U output_dir (storage st) cat loc session ts of
        (on_disk, lines, result) \<Rightarrow>
          (case collect_result (cat, loc) result
                  (st\<lparr>storage := on_disk, printed := printed st @ lines\<rparr>) of
             Inl e \<Rightarrow> Inl e
           | Inr st' \<Rightarrow> run_tasks U output_dir rest st'))"

text \<open>
  \<open>main\<close> from the two input lists on: \<open>outcome i\<close> is the session outcome and time
  stamp of the task submitted at position \<open>i\<close>, and \<open>order\<close> lists the positions in
  completion order.
  \<^verbatim>\<open>
    if not parquet_files:
        print("No parquet outputs found from workers; aborting combine.")
        return
    combined_xlsx = combine_outputs(parquet_files, config)
  \<close>
  The result records how \<open>main\<close> ended: it returned early, an exception left it, or it
  called \<open>combine_outputs\<close> on the list of paths given. The summary sheet added
  afterwards is not part of the model.
\<close>

datatype run_result =
    Aborted abort "printed list"
  | Raised exn
  | Combined "pystr list" "printed list" "exn + combined_row list option"

definition main ::
  "(nat \<Rightarrow> uclass) \<Rightarrow> pystr \<Rightarrow> pystr set \<Rightarrow> (pystr \<Rightarrow> exn + frame)
     \<Rightarrow> pystr list \<Rightarrow> pystr list \<Rightarrow> (nat \<Rightarrow> session \<times> pystr) \<Rightarrow> nat list \<Rightarrow> run_result" where
  "main U output_dir files0 read_parquet categories locations outcome order =
     (case build_combos categories locations of
        Inl a \<Rightarrow> Aborted a []
      | Inr all_combos \<Rightarrow>
          (case run_tasks U output_dir (map (\<lambda>i. (all_combos ! i, outcome i)) order)
                  \<lparr>storage = files0, parquet_files = [], printed = []\<rparr> of
             Inl e \<Rightarrow> Raised e
           | Inr st \<Rightarrow>
               if parquet_files st = []
               then Aborted No_parquet_outputs (printed st @ [No_parquet_outputs_found])
               else Combined (parquet_files st) (printed st)
                      (combine_outputs U read_parquet (parquet_files st))))"

text \<open>
  What a task adds to the list of collected paths and to the error lines, stated from the
  task alone.
\<close>

definition collected_path :: "(nat \<Rightarrow> uclass) \<Rightarrow> pystr \<Rightarrow> task \<Rightarrow> pystr list" where
  "collected_path U output_dir t =
     (case t of
        ((cat, loc), Inr (df, vendor), ts) \<Rightarrow>
           [if df = [] then Path_empty else path_join output_dir (out_name U vendor loc ts)]
      | ((cat, loc), Inl e, ts) \<Rightarrow> [])"

definition error_line :: "task \<Rightarrow> printed list" where
  "error_line t =
     (case t of
        ((cat, loc), Inl e, ts) \<Rightarrow> [Error_in_combo cat loc (message e)]
      | ((cat, loc), Inr r, ts) \<Rightarrow> [])"

definition is_error_line :: "printed \<Rightarrow> bool" where
  "is_error_line l = (case l of Error_in_combo cat loc m \<Rightarrow> True | _ \<Rightarrow> False)"

definition raises_only_Exception :: "task \<Rightarrow> bool" where
  "raises_only_Exception t =
     (case t of (combo, Inl e, ts) \<Rightarrow> is_Exception e | (combo, Inr r, ts) \<Rightarrow> True)"

text \<open>Three tasks in completion order, the second of which fails in its browser session.\<close>

definition sample_tasks :: "task list" where
  "sample_tasks =
     [((str ''c1'', str ''Maadi''), Inr ([sample_row ''Rice'' ''EGP 75'' PNone], str ''Sarai''), str ''t1''),
      ((str ''c1'', str ''Giza''), Inl (Other_Exception (str ''Timeout 30000ms exceeded'')), str ''t2''),
      ((str ''c2'', str ''Maadi''), Inr ([sample_row ''Tea'' ''120,00'' PNone], str ''Sarai''), str ''t3'')]"

text \<open>The tasks of a run in completion order, as \<open>main\<close> hands them to the loop.\<close>

definition completed_tasks ::
  "pystr list \<Rightarrow> pystr list \<Rightarrow> (nat \<Rightarrow> session \<times> pystr) \<Rightarrow> nat list \<Rightarrow> task list" where
  "completed_tasks categories locations outcome order =
     map (\<lambda>i. (combos categories locations ! i, outcome i)) order"

text \<open>
  A sample batch of three tasks of which the one submitted second fails in its browser
  session, the store that holds the two artifacts written, and a batch of two tasks in
  which the first is interrupted.
\<close>

definition sample_df :: "pystr \<Rightarrow> product list" where
  "sample_df loc = [(sample_row ''Rice'' ''EGP 75'' PNone)\<lparr>location_used := loc\<rparr>]"

definition sample_outcome :: "nat \<Rightarrow> session \<times> pystr" where
  "sample_outcome i =
     (if i = 0 then (Inr (sample_df (str ''Maadi''), str ''Sarai''), str ''t0'')
      else if i = 1 then (Inl (Other_Exception (str ''Timeout 30000ms exceeded'')), str ''t1'')
      else (Inr (sample_df (str ''Zamalek''), str ''Sarai''), str ''t2''))"

definition sample_store :: "pystr \<Rightarrow> exn + frame" where
  "sample_store p =
     (if p = str ''out/Sarai__Maadi__t0.parquet'' then Inr (Table (sample_df (str ''Maadi'')))
      else if p = str ''out/Sarai__Zamalek__t2.parquet'' then Inr (Table (sample_df (str ''Zamalek'')))
      else Inl (Other_Exception p))"

definition interrupted_outcome :: "nat \<Rightarrow> session \<times> pystr" where
  "interrupted_outcome i =
     (if i = 0 then (Inl (Non_Exception (str ''KeyboardInterrupt'')), str ''t0'')
      else (Inr (sample_df (str ''Giza''), str ''Sarai''), str ''t1''))"

text \<open>A bound below the overflow threshold, kept as a name so that it is not expanded.\<close>

definition safe_bound :: rat where
  "safe_bound = 10 ^ 308"

section \<open>Properties of the task list\<close>

lemma length_combos: "length (combos cs ls) = length cs * length ls"
  by (induction cs) (simp_all add: combos_def)

lemma combos_nth:
  "i < length cs \<Longrightarrow> j < length ls \<Longrightarrow> combos cs ls ! (i * length ls + j) = (cs ! i, ls ! j)"
proof (induction cs arbitrary: i)
  case Nil
  then show ?case by simp
next
  case (Cons c cs)
  have unfold: "combos (c # cs) ls = map (\<lambda>loc. (c, loc)) ls @ combos cs ls"
    by (simp add: combos_def)
  show ?case
  proof (cases i)
    case 0
    with Cons.prems show ?thesis by (simp add: unfold nth_append)
  next
    case (Suc k)
    with Cons.prems have k: "k < length cs" by simp
    have "combos (c # cs) ls ! (i * length ls + j) = combos cs ls ! (k * length ls + j)"
      using Suc by (simp add: unfold nth_append)
    with Cons.IH [OF k Cons.prems(2)] Suc show ?thesis by simp
  qed
qed

lemma set_combos: "set (combos cs ls) = set cs \<times> set ls"
  by (auto simp: combos_def)

lemma distinct_combos: "distinct cs \<Longrightarrow> distinct ls \<Longrightarrow> distinct (combos cs ls)"
proof (induction cs)
  case Nil
  then show ?case by (simp add: combos_def)
next
  case (Cons c cs)
  have unfold: "combos (c # cs) ls = map (\<lambda>loc. (c, loc)) ls @ combos cs ls"
    by (simp add: combos_def)
  have "distinct (map (\<lambda>loc. (c, loc)) ls)"
    using Cons.prems(2) by (simp add: distinct_map inj_on_def)
  moreover have "distinct (combos cs ls)"
    using Cons by simp
  moreover have "set (map (\<lambda>loc. (c, loc)) ls) \<inter> set (combos cs ls) = {}"
    using Cons.prems(1) by (auto simp: set_combos)
  ultimately show ?case by (simp add: unfold)
qed

text \<open>
  C5. For non-empty category and location lists of sizes m and n the orchestrator builds
  exactly m * n tasks; the task at position i * n + j is the pair of the i-th category
  and the j-th location (categories are the outer loop, locations the inner one), every
  pair of a category and a location is a task, and the tasks are pairwise distinct when
  neither input list has a duplicate.
\<close>

theorem C5_cross_product:
  assumes "categories \<noteq> []" and "locations \<noteq> []"
  shows "\<exists>tasks. build_combos categories locations = Inr tasks
           \<and> length tasks = length categories * length locations
           \<and> (\<forall>i < length categories. \<forall>j < length locations.
                 tasks ! (i * length locations + j) = (categories ! i, locations ! j))
           \<and> set tasks = set categories \<times> set locations
           \<and> (distinct categories \<and> distinct locations \<longrightarrow> distinct tasks)"
  using assms
  by (simp add: build_combos_def length_combos combos_nth set_combos distinct_combos)

theorem C5_cross_product_witness:
  "[str ''c1'', str ''c2''] \<noteq> [] \<and> [str ''Maadi'', str ''Zamalek'', str ''Giza''] \<noteq> []
   \<and> build_combos [str ''c1'', str ''c2''] [str ''Maadi'', str ''Zamalek'', str ''Giza'']
       = Inr [(str ''c1'', str ''Maadi''), (str ''c1'', str ''Zamalek''), (str ''c1'', str ''Giza''),
              (str ''c2'', str ''Maadi''), (str ''c2'', str ''Zamalek''), (str ''c2'', str ''Giza'')]
   \<and> length (combos [str ''c1'', str ''c2''] [str ''Maadi'', str ''Zamalek'', str ''Giza'']) = 2 * 3"
  using C5_cross_product [of "[str ''c1'', str ''c2'']" "[str ''Maadi'', str ''Zamalek'', str ''Giza'']"]
  by (simp add: build_combos_def combos_def)

section \<open>Properties of the Scroll Stabilizer\<close>

lemma scroll_loop_Cons:
  "scroll_loop B cfg (c # cs) st =
     (let st' = fst (scroll_cycle B c st); e = snd (scroll_cycle B c st)
      in if rounds_stable cfg \<le> stable_rounds st' then (st', [e])
         else (fst (scroll_loop B cfg cs st'), e # snd (scroll_loop B cfg cs st')))"
  by (simp add: Let_def split: prod.splits)

lemma scroll_loop_length: "length (snd (scroll_loop B cfg cs st)) \<le> length cs"
  by (induction cs arbitrary: st) (simp_all add: scroll_loop_Cons Let_def del: scroll_loop.simps(2))

lemma scroll_loop_short:
  "length (snd (scroll_loop B cfg cs st)) < length cs \<Longrightarrow>
     rounds_stable cfg \<le> stable_rounds (fst (scroll_loop B cfg cs st))"
  by (induction cs arbitrary: st)
     (auto simp: scroll_loop_Cons Let_def simp del: scroll_loop.simps(2) split: if_splits)

lemma scroll_loop_cycles:
  "map e_cycle (snd (scroll_loop B cfg cs st)) = take (length (snd (scroll_loop B cfg cs st))) cs"
  by (induction cs arbitrary: st)
     (simp_all add: scroll_loop_Cons Let_def scroll_cycle_def del: scroll_loop.simps(2))

lemma scroll_loop_Nil_iff: "snd (scroll_loop B cfg cs st) = [] \<longleftrightarrow> cs = []"
  by (cases cs) (simp_all add: scroll_loop_Cons Let_def del: scroll_loop.simps(2))

lemma scroll_cycle_entry:
  "e_last (snd (scroll_cycle B c st)) = last_count (fst (scroll_cycle B c st))"
  "e_stable (snd (scroll_cycle B c st)) = stable_rounds (fst (scroll_cycle B c st))"
  "e_page (snd (scroll_cycle B c st)) = page (fst (scroll_cycle B c st))"
  "e_cycle (snd (scroll_cycle B c st)) = c"
  by (simp_all add: scroll_cycle_def Let_def)

lemma scroll_loop_final:
  "cs \<noteq> [] \<Longrightarrow>
     fst (scroll_loop B cfg cs st)
       = \<lparr>page = e_page (last (snd (scroll_loop B cfg cs st))),
          last_count = e_last (last (snd (scroll_loop B cfg cs st))),
          stable_rounds = e_stable (last (snd (scroll_loop B cfg cs st)))\<rparr>"
proof (induction cs arbitrary: st)
  case Nil
  then show ?case by simp
next
  case (Cons c cs)
  show ?case
  proof (cases "cs = []")
    case True
    then show ?thesis
      by (simp add: scroll_loop_Cons Let_def scroll_cycle_entry del: scroll_loop.simps(2))
  next
    case False
    with Cons.IH [OF False] show ?thesis
      by (simp add: scroll_loop_Cons Let_def scroll_cycle_entry scroll_loop_Nil_iff
               del: scroll_loop.simps(2))
  qed
qed

lemma scroll_cycle_page:
  "page (fst (scroll_cycle B c st))
     = (if stable_rounds (fst (scroll_cycle B c st)) = 1
        then scroll_by_up B (sleep B (scroll_to_bottom B (page st)))
        else sleep B (scroll_to_bottom B (page st)))"
  by (simp add: scroll_cycle_def Let_def)

lemma scroll_cycle_rule:
  "follows_rule B cfg (page st) (last_count st) (stable_rounds st) (snd (scroll_cycle B c st) # es) =
     ((rounds_stable cfg \<le> stable_rounds (fst (scroll_cycle B c st)) \<longrightarrow> es = [])
      \<and> follows_rule B cfg (page (fst (scroll_cycle B c st))) (last_count (fst (scroll_cycle B c st)))
            (stable_rounds (fst (scroll_cycle B c st))) es)"
  by (simp add: scroll_cycle_def Let_def)

lemma scroll_loop_follows:
  "follows_rule B cfg (page st) (last_count st) (stable_rounds st) (snd (scroll_loop B cfg cs st))"
proof (induction cs arbitrary: st)
  case Nil
  show ?case by simp
next
  case (Cons c cs)
  from Cons.IH [of "fst (scroll_cycle B c st)"] show ?case
    by (simp add: scroll_loop_Cons Let_def scroll_cycle_rule
             del: scroll_loop.simps(2) follows_rule.simps(2))
qed

text \<open>
  C6. Whatever the page does, the Scroll Stabilizer returns after at most
  max_scroll_cycles cycles (none when the cap is zero or negative): the cycles run are
  numbered 1, 2, ... without a gap, and the loop ends before the cap only when
  stable_rounds has reached rounds_stable. A page whose count never stabilizes is
  stopped by the cap.
\<close>

theorem C6_scroll_terminates:
  "length (snd (human_like_scroll B cfg p)) \<le> nat (max_scroll_cycles cfg)
   \<and> map e_cycle (snd (human_like_scroll B cfg p)) = [1..int (length (snd (human_like_scroll B cfg p)))]
   \<and> (length (snd (human_like_scroll B cfg p)) < nat (max_scroll_cycles cfg) \<longrightarrow>
         rounds_stable cfg \<le> stable_rounds (fst (human_like_scroll B cfg p)))"
proof -
  let ?cs = "[1..max_scroll_cycles cfg]"
  let ?st = "\<lparr>page = p, last_count = 0, stable_rounds = 0\<rparr>"
  have len: "length ?cs = nat (max_scroll_cycles cfg)" by simp
  have a: "length (snd (scroll_loop B cfg ?cs ?st)) \<le> nat (max_scroll_cycles cfg)"
    using scroll_loop_length [of B cfg ?cs ?st] by simp
  have "take k [1..m] = [1..int k]" if "k \<le> nat m" for k m
    using that
  proof (induction k)
    case 0
    show ?case by simp
  next
    case (Suc k)
    then have "take (Suc k) [1..m] = take k [1..m] @ [[1..m] ! k]"
      by (simp add: take_Suc_conv_app_nth)
    also have "\<dots> = [1..int k] @ [int k + 1]" using Suc by simp
    also have "\<dots> = [1..int (Suc k)]" by (simp add: upto_rec2)
    finally show ?case .
  qed
  then have b: "map e_cycle (snd (scroll_loop B cfg ?cs ?st))
                 = [1..int (length (snd (scroll_loop B cfg ?cs ?st)))]"
    using a by (simp add: scroll_loop_cycles)
  have c: "length (snd (scroll_loop B cfg ?cs ?st)) < nat (max_scroll_cycles cfg) \<longrightarrow>
             rounds_stable cfg \<le> stable_rounds (fst (scroll_loop B cfg ?cs ?st))"
    using scroll_loop_short [of B cfg ?cs ?st] by simp
  from a b c show ?thesis by (simp add: human_like_scroll_def)
qed


theorem C6_scroll_terminates_witness:
  "length (snd (human_like_scroll fixed_page \<lparr>max_scroll_cycles = 5, rounds_stable = 3\<rparr> 7)) = 4
   \<and> length (snd (human_like_scroll fixed_page \<lparr>max_scroll_cycles = 5, rounds_stable = 3\<rparr> 7)) < nat 5
   \<and> rounds_stable \<lparr>max_scroll_cycles = 5, rounds_stable = 3\<rparr>
        \<le> stable_rounds (fst (human_like_scroll fixed_page \<lparr>max_scroll_cycles = 5, rounds_stable = 3\<rparr> 7))
   \<and> length (snd (human_like_scroll growing_page \<lparr>max_scroll_cycles = 5, rounds_stable = 3\<rparr> 0)) = 5"
proof -
  have "length (snd (human_like_scroll fixed_page \<lparr>max_scroll_cycles = 5, rounds_stable = 3\<rparr> 7)) = 4"
    by code_simp
  moreover have "length (snd (human_like_scroll growing_page \<lparr>max_scroll_cycles = 5, rounds_stable = 3\<rparr> 0)) = 5"
    by code_simp
  ultimately show ?thesis
    using C6_scroll_terminates [of fixed_page "\<lparr>max_scroll_cycles = 5, rounds_stable = 3\<rparr>" 7]
    by simp
qed

text \<open>
  C7. In every cycle of a run the count read from the page after the scroll to the bottom
  and the wait is compared with last_count: when equal, stable_rounds grows by one and
  last_count stays; otherwise stable_rounds becomes 0 and last_count becomes the count.
  The page is scrolled up exactly in the cycles that end with stable_rounds = 1 and is
  left as the wait left it in every other cycle, and a cycle that ends with
  stable_rounds >= rounds_stable is the last one. The run starts from the page given,
  last_count = 0 and stable_rounds = 0; each cycle starts from the page and the variables
  the cycle before ended with; and the state returned is that of the last cycle.
\<close>

theorem C7_cycle_rule:
  "follows_rule B cfg p 0 0 (snd (human_like_scroll B cfg p))
   \<and> (snd (human_like_scroll B cfg p) = [] \<longrightarrow>
        fst (human_like_scroll B cfg p) = \<lparr>page = p, last_count = 0, stable_rounds = 0\<rparr>)
   \<and> (snd (human_like_scroll B cfg p) \<noteq> [] \<longrightarrow>
        fst (human_like_scroll B cfg p)
          = \<lparr>page = e_page (last (snd (human_like_scroll B cfg p))),
             last_count = e_last (last (snd (human_like_scroll B cfg p))),
             stable_rounds = e_stable (last (snd (human_like_scroll B cfg p)))\<rparr>)
   \<and> e_count (snd (scroll_cycle B c st)) = count_cards B (sleep B (scroll_to_bottom B (page st)))
   \<and> page (fst (scroll_cycle B c st))
        = (if stable_rounds (fst (scroll_cycle B c st)) = 1
           then scroll_by_up B (sleep B (scroll_to_bottom B (page st)))
           else sleep B (scroll_to_bottom B (page st)))"
proof -
  let ?cs = "[1..max_scroll_cycles cfg]"
  let ?st = "\<lparr>page = p, last_count = 0, stable_rounds = 0\<rparr>"
  have a: "follows_rule B cfg p 0 0 (snd (scroll_loop B cfg ?cs ?st))"
    using scroll_loop_follows [of B cfg ?st ?cs] by simp
  have b: "snd (scroll_loop B cfg ?cs ?st) = [] \<longrightarrow> fst (scroll_loop B cfg ?cs ?st) = ?st"
    by (simp add: scroll_loop_Nil_iff)
  have c: "snd (scroll_loop B cfg ?cs ?st) \<noteq> [] \<longrightarrow>
        fst (scroll_loop B cfg ?cs ?st)
          = \<lparr>page = e_page (last (snd (scroll_loop B cfg ?cs ?st))),
             last_count = e_last (last (snd (scroll_loop B cfg ?cs ?st))),
             stable_rounds = e_stable (last (snd (scroll_loop B cfg ?cs ?st)))\<rparr>"
    using scroll_loop_final [of ?cs B cfg ?st] by (simp only: scroll_loop_Nil_iff) blast
  have d: "e_count (snd (scroll_cycle B c st)) = count_cards B (sleep B (scroll_to_bottom B (page st)))"
    by (simp add: scroll_cycle_def Let_def)
  from a b c d scroll_cycle_page [of B c st] show ?thesis
    by (simp only: human_like_scroll_def)
qed

theorem C7_cycle_rule_witness:
  "human_like_scroll nudge_counting_page \<lparr>max_scroll_cycles = 5, rounds_stable = 2\<rparr> (7, 0)
     = (\<lparr>page = (7, 1), last_count = 7, stable_rounds = 2\<rparr>,
        [\<lparr>e_cycle = 1, e_count = 7, e_calls = [Scroll_to_bottom, Sleep, Count_cards],
          e_last = 7, e_stable = 0, e_page = (7, 0)\<rparr>,
         \<lparr>e_cycle = 2, e_count = 7, e_calls = [Scroll_to_bottom, Sleep, Count_cards, Scroll_by_up],
          e_last = 7, e_stable = 1, e_page = (7, 1)\<rparr>,
         \<lparr>e_cycle = 3, e_count = 7, e_calls = [Scroll_to_bottom, Sleep, Count_cards],
          e_last = 7, e_stable = 2, e_page = (7, 1)\<rparr>])
   \<and> follows_rule nudge_counting_page \<lparr>max_scroll_cycles = 5, rounds_stable = 2\<rparr> (7, 0) 0 0
        (snd (human_like_scroll nudge_counting_page \<lparr>max_scroll_cycles = 5, rounds_stable = 2\<rparr> (7, 0)))
   \<and> page (fst (human_like_scroll nudge_counting_page \<lparr>max_scroll_cycles = 5, rounds_stable = 2\<rparr> (7, 0)))
       = (7, 1)"
proof -
  have run: "human_like_scroll nudge_counting_page \<lparr>max_scroll_cycles = 5, rounds_stable = 2\<rparr> (7, 0)
     = (\<lparr>page = (7, 1), last_count = 7, stable_rounds = 2\<rparr>,
        [\<lparr>e_cycle = 1, e_count = 7, e_calls = [Scroll_to_bottom, Sleep, Count_cards],
          e_last = 7, e_stable = 0, e_page = (7, 0)\<rparr>,
         \<lparr>e_cycle = 2, e_count = 7, e_calls = [Scroll_to_bottom, Sleep, Count_cards, Scroll_by_up],
          e_last = 7, e_stable = 1, e_page = (7, 1)\<rparr>,
         \<lparr>e_cycle = 3, e_count = 7, e_calls = [Scroll_to_bottom, Sleep, Count_cards],
          e_last = 7, e_stable = 2, e_page = (7, 1)\<rparr>])"
    by code_simp
  have ops: "scroll_to_bottom nudge_counting_page x = x" "sleep nudge_counting_page x = x"
    "count_cards nudge_counting_page (n, k) = n"
    "scroll_by_up nudge_counting_page (n, k) = (n, Suc k)" for x n k
    by (simp_all add: nudge_counting_page_def split: prod.splits)
  have rule: "follows_rule nudge_counting_page \<lparr>max_scroll_cycles = 5, rounds_stable = 2\<rparr> (7, 0) 0 0
        (snd (human_like_scroll nudge_counting_page \<lparr>max_scroll_cycles = 5, rounds_stable = 2\<rparr> (7, 0)))"
    by (simp add: run ops)
  have pg: "page (fst (human_like_scroll nudge_counting_page \<lparr>max_scroll_cycles = 5, rounds_stable = 2\<rparr> (7, 0)))
       = (7, 1)"
    by (simp add: run)
  from run rule pg
    C7_cycle_rule [of nudge_counting_page "\<lparr>max_scroll_cycles = 5, rounds_stable = 2\<rparr>" "(7, 0)"]
  show ?thesis by blast
qed

section \<open>Properties of the file-name sanitization\<close>

lemma not_isalnum_punct: "\<not> isalnum U 32" "\<not> isalnum U 45" "\<not> isalnum U 95"
  by (simp_all add: isalnum_def classify_def ascii_class_def)

lemma safe_char_eq: "safe_char U ch = (if isalnum U ch \<or> ch = 32 \<or> ch = 95 \<or> ch = 45 then ch else 95)"
  by (simp add: safe_char_def str_def)

lemma isspace_safe_char: "isspace U (safe_char U ch) \<longleftrightarrow> ch = 32"
  by (auto simp: safe_char_eq isspace_def isalnum_def classify_def ascii_class_def
           split: uclass.splits if_splits)

lemma dropWhile_safe_char:
  "dropWhile (isspace U) (map (safe_char U) s) = map (safe_char U) (dropWhile (\<lambda>ch. ch = 32) s)"
  by (induction s) (simp_all add: isspace_safe_char)

lemma strip_safe_char: "strip U (map (safe_char U) s) = map (safe_char U) (trim_spaces s)"
  by (simp add: strip_def trim_spaces_def dropWhile_safe_char rev_map)

lemma set_trim_spaces: "set (trim_spaces s) \<subseteq> set s"
  by (auto simp: trim_spaces_def dest!: set_dropWhileD)

lemma sanitize_eq:
  "sanitize U s = map (\<lambda>ch. if isalnum U ch \<or> ch = 95 \<or> ch = 45 then ch else 95) (trim_spaces s)"
  by (simp add: sanitize_def strip_safe_char replace_char_def safe_char_eq not_isalnum_punct)

lemma ascii_isalnum:
  "c < 128 \<Longrightarrow> isalnum U c \<longleftrightarrow> (65 \<le> c \<and> c \<le> 90) \<or> (97 \<le> c \<and> c \<le> 122) \<or> (48 \<le> c \<and> c \<le> 57)"
  by (auto simp: isalnum_def classify_def ascii_class_def)

lemma sanitize_ascii:
  assumes "\<forall>c \<in> set s. c < 128"
  shows "sanitize U s = spec_sanitize (trim_spaces s)"
proof -
  have "\<forall>c \<in> set (trim_spaces s). c < 128" using assms set_trim_spaces by blast
  then show ?thesis
    by (auto simp: sanitize_eq spec_sanitize_def replace_char_def spec_allowed_def ascii_isalnum)
qed

lemma trim_spaces_id:
  assumes "s = [] \<or> (hd s \<noteq> 32 \<and> last s \<noteq> 32)"
  shows "trim_spaces s = s"
proof (cases "s = []")
  case True
  then show ?thesis by (simp add: trim_spaces_def)
next
  case False
  with assms have h: "hd s \<noteq> 32" and l: "last s \<noteq> 32" by simp_all
  have front: "dropWhile (\<lambda>ch. ch = 32) s = s"
    using h by (simp add: dropWhile_eq_self_iff)
  have "hd (rev s) \<noteq> 32" using l False by (simp add: hd_rev)
  then have "dropWhile (\<lambda>ch. ch = 32) (rev s) = rev s"
    by (simp add: dropWhile_eq_self_iff)
  with front show ?thesis by (simp add: trim_spaces_def)
qed

text \<open>
  C8 (as amended). The sanitization of a vendor name or location first drops the spaces
  at both ends (the \<open>strip\<close> call), then keeps every character that is alphanumeric
  in Python's sense, \<open>_\<close> or \<open>-\<close> and turns every other character, inner spaces
  included, into \<open>_\<close>. On a string of ASCII characters that is the rule of the
  specification applied to the string without its leading and trailing spaces, and the
  rule itself when the string neither starts nor ends with a space. The example of the
  specification holds, and both parts of the file name are sanitized this way.
\<close>

theorem C8_sanitize:
  "sanitize U s = map (\<lambda>ch. if isalnum U ch \<or> ch = 95 \<or> ch = 45 then ch else 95) (trim_spaces s)
   \<and> ((\<forall>c \<in> set s. c < 128) \<longrightarrow> sanitize U s = spec_sanitize (trim_spaces s))
   \<and> ((\<forall>c \<in> set s. c < 128) \<and> (s = [] \<or> (hd s \<noteq> 32 \<and> last s \<noteq> 32)) \<longrightarrow> sanitize U s = spec_sanitize s)
   \<and> sanitize U (str ''Sarai Market / Al-Ekbal!'') = str ''Sarai_Market___Al-Ekbal_''
   \<and> out_name U vendor location ts
        = sanitize U vendor @ str ''__'' @ sanitize U location @ str ''__'' @ ts @ str ''.parquet''"
proof -
  have ex: "sanitize U (str ''Sarai Market / Al-Ekbal!'') = str ''Sarai_Market___Al-Ekbal_''"
    by (simp add: sanitize_eq trim_spaces_def str_def isalnum_def classify_def ascii_class_def)
  have a: "(\<forall>c \<in> set s. c < 128) \<longrightarrow> sanitize U s = spec_sanitize (trim_spaces s)"
    using sanitize_ascii [of s U] by blast
  have b: "(\<forall>c \<in> set s. c < 128) \<and> (s = [] \<or> (hd s \<noteq> 32 \<and> last s \<noteq> 32)) \<longrightarrow> sanitize U s = spec_sanitize s"
    using sanitize_ascii [of s U] trim_spaces_id [of s] by auto
  have c: "out_name U vendor location ts
        = sanitize U vendor @ str ''__'' @ sanitize U location @ str ''__'' @ ts @ str ''.parquet''"
    by (simp only: out_name_def)
  from sanitize_eq [of U s] a b ex c show ?thesis by blast
qed

theorem C8_sanitize_witness:
  "list_all (\<lambda>c. c < 128) (str ''Al-Ekbal 2!'')
   \<and> hd (str ''Al-Ekbal 2!'') \<noteq> 32 \<and> last (str ''Al-Ekbal 2!'') \<noteq> 32
   \<and> sanitize unicode_excerpt (str ''Al-Ekbal 2!'') = spec_sanitize (str ''Al-Ekbal 2!'')
   \<and> spec_sanitize (str ''Al-Ekbal 2!'') = str ''Al-Ekbal_2_''"
proof -
  have h: "list_all (\<lambda>c. c < 128) (str ''Al-Ekbal 2!'')
      \<and> hd (str ''Al-Ekbal 2!'') \<noteq> 32 \<and> last (str ''Al-Ekbal 2!'') \<noteq> 32"
    by (simp add: str_def)
  have v: "spec_sanitize (str ''Al-Ekbal 2!'') = str ''Al-Ekbal_2_''"
    by (simp add: str_def spec_sanitize_def replace_char_def spec_allowed_def)
  have h': "\<forall>c \<in> set (str ''Al-Ekbal 2!''). c < 128"
    using h by (simp only: list_all_iff) blast
  from h h' v C8_sanitize [of unicode_excerpt "str ''Al-Ekbal 2!''"] show ?thesis
    by blast
qed

text \<open>
  The rule as the specification states it fails on a leading space, which the code drops
  where the rule gives \<open>_\<close>, and on a letter outside ASCII, which the code keeps.
\<close>

theorem C8_sanitize_counterexample:
  "sanitize unicode_excerpt (str '' Maadi'') = str ''Maadi''
   \<and> spec_sanitize (str '' Maadi'') = str ''_Maadi''
   \<and> sanitize unicode_excerpt (str '' Maadi'') \<noteq> spec_sanitize (str '' Maadi'')
   \<and> sanitize unicode_excerpt [0x63, 0x61, 0x66, 0xE9] = [0x63, 0x61, 0x66, 0xE9]
   \<and> spec_sanitize [0x63, 0x61, 0x66, 0xE9] = str ''caf_''"
  by (simp add: sanitize_eq trim_spaces_def str_def isalnum_def classify_def ascii_class_def
        unicode_excerpt_def spec_sanitize_def replace_char_def spec_allowed_def)

section \<open>Properties of the float model\<close>

lemma pow2_powi: "pow2 k = 2 powi k"
  by (simp add: pow2_def power_int_def inverse_eq_divide power_one_over)

lemma pow2_pos: "0 < pow2 k"
  by (simp add: pow2_powi)

lemma pow2_less_iff: "pow2 i < pow2 j \<longleftrightarrow> i < j"
proof
  assume "pow2 i < pow2 j"
  show "i < j"
  proof (rule ccontr)
    assume "\<not> i < j"
    then have "j \<le> i" by simp
    then have "(2::rat) powi j \<le> 2 powi i" by (intro power_int_increasing) simp_all
    with \<open>pow2 i < pow2 j\<close> show False by (simp add: pow2_powi)
  qed
next
  assume "i < j"
  then have "(2::rat) powi i < 2 powi j" by (intro power_int_strict_increasing) simp_all
  then show "pow2 i < pow2 j" by (simp add: pow2_powi)
qed

lemma pow2_add: "pow2 (i + j) = pow2 i * pow2 j"
  by (simp add: pow2_powi power_int_add)

lemma ilog2_bounds:
  assumes "0 < a"
  shows "pow2 (ilog2 a) \<le> a \<and> a < pow2 (ilog2 a + 1)"
proof -
  obtain n d where q: "quotient_of a = (n, d)" by force
  have d: "0 < d" using q by (rule quotient_of_denom_pos)
  have a: "a = of_int n / of_int d" using q by (rule quotient_of_div)
  have n: "0 < n" using assms d unfolding a by (simp add: zero_less_divide_iff)
  define k where "k = bitlen n - bitlen d"
  have bn: "2 ^ nat (bitlen n - 1) \<le> n" "n < 2 ^ nat (bitlen n)"
    using bitlen_bounds [OF n] by simp_all
  have bd: "2 ^ nat (bitlen d - 1) \<le> d" "d < 2 ^ nat (bitlen d)"
    using bitlen_bounds [OF d] by simp_all
  have n1: "1 \<le> bitlen n" using n by (simp add: bitlen_alt_def)
  have d1: "1 \<le> bitlen d" using d by (simp add: bitlen_alt_def)
  have rn: "pow2 (bitlen n - 1) \<le> of_int n" "of_int n < pow2 (bitlen n)"
  proof -
    have "(of_int (2 ^ nat (bitlen n - 1)) :: rat) \<le> of_int n"
      using bn(1) by (simp only: of_int_le_iff)
    then show "pow2 (bitlen n - 1) \<le> of_int n" using n1 by (simp add: pow2_def)
    have "(of_int n :: rat) < of_int (2 ^ nat (bitlen n))"
      using bn(2) by (simp only: of_int_less_iff)
    then show "of_int n < pow2 (bitlen n)" using n1 by (simp add: pow2_def)
  qed
  have rd: "pow2 (bitlen d - 1) \<le> of_int d" "of_int d < pow2 (bitlen d)"
  proof -
    have "(of_int (2 ^ nat (bitlen d - 1)) :: rat) \<le> of_int d"
      using bd(1) by (simp only: of_int_le_iff)
    then show "pow2 (bitlen d - 1) \<le> of_int d" using d1 by (simp add: pow2_def)
    have "(of_int d :: rat) < of_int (2 ^ nat (bitlen d))"
      using bd(2) by (simp only: of_int_less_iff)
    then show "of_int d < pow2 (bitlen d)" using d1 by (simp add: pow2_def)
  qed
  have dpos: "(0::rat) < of_int d" using d by simp
  have upper: "a < pow2 (k + 1)"
  proof -
    have "pow2 (k + 1) * pow2 (bitlen d - 1) = pow2 (bitlen n)"
      by (simp add: pow2_add [symmetric] k_def)
    moreover have "pow2 (k + 1) * pow2 (bitlen d - 1) \<le> pow2 (k + 1) * of_int d"
      using rd(1) pow2_pos [of "k + 1"] by (simp add: mult_left_mono)
    ultimately have "of_int n < pow2 (k + 1) * of_int d" using rn(2) by simp
    then show ?thesis unfolding a using dpos by (simp add: pos_divide_less_eq)
  qed
  have lower: "pow2 (k - 1) < a"
  proof -
    have "pow2 (k - 1) * pow2 (bitlen d) = pow2 (bitlen n - 1)"
      by (simp add: pow2_add [symmetric] k_def)
    moreover have "pow2 (k - 1) * of_int d < pow2 (k - 1) * pow2 (bitlen d)"
      using rd(2) pow2_pos [of "k - 1"] by (simp add: mult_strict_left_mono)
    ultimately have "pow2 (k - 1) * of_int d < of_int n" using rn(1) by simp
    then show ?thesis unfolding a using dpos by (simp add: pos_less_divide_eq)
  qed
  have val: "ilog2 a = (if pow2 k \<le> a then k else k - 1)"
    by (simp add: ilog2_def q k_def Let_def)
  show ?thesis
  proof (cases "pow2 k \<le> a")
    case True
    with val upper show ?thesis by simp
  next
    case False
    with val lower show ?thesis by simp
  qed
qed

lemma ilog2_unique:
  assumes "pow2 j \<le> a" and "a < pow2 (j + 1)"
  shows "ilog2 a = j"
proof -
  have "0 < a" using assms(1) pow2_pos [of j] by simp
  from ilog2_bounds [OF this] have b: "pow2 (ilog2 a) \<le> a" "a < pow2 (ilog2 a + 1)" by simp_all
  have "pow2 j < pow2 (ilog2 a + 1)" using assms(1) b(2) by simp
  then have "j < ilog2 a + 1" by (simp only: pow2_less_iff)
  moreover have "pow2 (ilog2 a) < pow2 (j + 1)" using assms(2) b(1) by simp
  then have "ilog2 a < j + 1" by (simp only: pow2_less_iff)
  ultimately show ?thesis by simp
qed


lemma round_half_even_of_int: "round_half_even (of_int m) = m"
  by (simp add: round_half_even_def)

lemma rnd_exact:
  assumes "pow2 j \<le> x" and "x < pow2 (j + 1)" and "- 1022 \<le> j" and "j \<le> 1022"
    and "x = of_int m * pow2 (j - 52)"
  shows "rnd x = Fin x"
proof -
  have pos: "0 < x" using assms(1) pow2_pos [of j] by simp
  have "pow2 (j + 1) \<le> pow2 1023"
    using assms(4) pow2_less_iff [of 1023 "j + 1"] by (simp add: not_less [symmetric])
  also have "pow2 1023 < overflow_threshold"
    by (simp add: pow2_def overflow_threshold_def)
  finally have small: "\<bar>x\<bar> < overflow_threshold" using assms(2) pos by simp
  have e: "ilog2 x = j" using assms(1,2) by (rule ilog2_unique)
  have q: "x / pow2 (j - 52) = of_int m"
    using assms(5) pow2_pos [of "j - 52"] by simp
  have "nearest_double x = of_int (round_half_even (x / pow2 (j - 52))) * pow2 (j - 52)"
    using assms(3) by (simp add: nearest_double_def e Let_def max_def)
  also have "\<dots> = x" by (simp only: q round_half_even_of_int assms(5) [symmetric])
  finally show ?thesis using small pos by (simp add: rnd_def)
qed

lemma rnd_91_2: "rnd (91 / 2) = Fin (91 / 2)"
  by (rule rnd_exact [where j = 5 and m = "91 * 2 ^ 46"]) (simp_all add: pow2_def)

lemma rnd_120: "rnd 120 = Fin 120"
  by (rule rnd_exact [where j = 6 and m = "120 * 2 ^ 46"]) (simp_all add: pow2_def)

lemma rnd_25: "rnd 25 = Fin 25"
  by (rule rnd_exact [where j = 4 and m = "25 * 2 ^ 48"]) (simp_all add: pow2_def)

lemma rnd_quarter: "rnd (1 / 4) = Fin (1 / 4)"
  by (rule rnd_exact [where j = "- 2" and m = "2 ^ 52"]) (simp_all add: pow2_def)

section \<open>Properties of price parsing\<close>

lemmas parse_eval = parse_price_def price_char_def isdigit_def classify_def ascii_class_def
  replace_char_def float_of_str_def ascii_of_def is_ascii_digit_def digits_value_def Let_def str_def

lemma parse_price_example_1: "parse_price U (PStr (str ''EGP 45.50'')) = Inr (Some (Fin (91 / 2)))"
  by (simp add: parse_eval rnd_91_2)

lemma parse_price_example_2: "parse_price unicode_excerpt (PStr [8212]) = Inr None"
  by (simp add: parse_eval unicode_excerpt_def)

lemma parse_price_example_3: "parse_price U (PStr (str ''120,00'')) = Inr (Some (Fin 120))"
  by (simp add: parse_eval rnd_120)

lemma those_ascii: "list_all (\<lambda>c. c < 127) s \<Longrightarrow> those (map (ascii_of U) s) = Some s"
  by (induction s) (simp_all add: ascii_of_def)

lemma digits_fold_zeros:
  "foldl (\<lambda>acc c. 10 * acc + (int c - 48)) a (replicate n 48) = a * 10 ^ n"
  by (induction n arbitrary: a) simp_all

lemma float_of_str_zeros:
  "float_of_str U (50 # replicate n 48) = Inr (rnd (2 * 10 ^ n))"
proof -
  have a: "those (map (ascii_of U) (50 # replicate n 48)) = Some (50 # replicate n 48)"
    by (rule those_ascii) (simp add: list_all_iff)
  have all: "\<forall>c \<in> set (50 # replicate n 48). is_ascii_digit c"
    by (auto simp: is_ascii_digit_def)
  have t: "takeWhile is_ascii_digit (50 # replicate n 48) = 50 # replicate n 48"
    using all by (simp only: takeWhile_eq_all_conv)
  have d: "dropWhile is_ascii_digit (50 # replicate n 48) = []"
    using all by (simp only: dropWhile_eq_Nil_conv)
  have v: "digits_value (50 # replicate n 48) = 2 * 10 ^ n"
    by (simp add: digits_value_def digits_fold_zeros)
  have e: "digits_value [] = 0" by (simp add: digits_value_def)
  show ?thesis
    by (simp only: float_of_str_def a option.case)
       (simp add: Let_def t d v e is_ascii_digit_def del: takeWhile.simps dropWhile.simps)
qed

lemma parse_price_zeros:
  "parse_price U (PStr (50 # replicate n 48)) = Inr (Some (rnd (2 * 10 ^ n)))"
proof -
  have "\<forall>c \<in> set (50 # replicate n 48). price_char U c"
    by (auto simp: price_char_def isdigit_def classify_def ascii_class_def)
  then have f: "filter (price_char U) (50 # replicate n 48) = 50 # replicate n 48"
    by (simp only: filter_id_conv)
  have r: "replace_char 44 46 (50 # replicate n 48) = 50 # replicate n 48"
    by (simp add: replace_char_def)
  show ?thesis
    by (simp only: parse_price_def pyval.case f Let_def r float_of_str_zeros) simp
qed

lemma parse_price_overflow: "parse_price U (PStr (str (CHR ''2'' # replicate 308 CHR ''0''))) = Inr (Some PInf)"
proof -
  have "str (CHR ''2'' # replicate 308 CHR ''0'') = 50 # replicate 308 48"
    by (simp add: str_def)
  moreover have "rnd (2 * 10 ^ 308) = PInf"
    by (simp add: rnd_def overflow_threshold_def)
  ultimately show ?thesis by (simp only: parse_price_zeros)
qed

lemma rnd_not_NaN: "rnd x \<noteq> NaN"
  by (simp add: rnd_def)

lemma rnd_finite: "\<bar>x\<bar> < overflow_threshold \<Longrightarrow> is_finite (rnd x)"
  by (simp add: rnd_def is_finite_def)

lemma float_of_str_raises: "float_of_str U s = Inl e \<Longrightarrow> e = ValueError s"
  by (auto simp: float_of_str_def Let_def split: option.splits if_splits)

lemma float_of_str_not_NaN: "float_of_str U s = Inr x \<Longrightarrow> x \<noteq> NaN"
  by (auto simp: float_of_str_def Let_def rnd_not_NaN split: option.splits if_splits)

lemma digits_fold_bounds:
  "list_all is_ascii_digit ds \<Longrightarrow> 0 \<le> a \<Longrightarrow>
     0 \<le> foldl (\<lambda>acc c. 10 * acc + (int c - 48)) a ds
     \<and> foldl (\<lambda>acc c. 10 * acc + (int c - 48)) a ds < (a + 1) * 10 ^ length ds"
proof (induction ds arbitrary: a)
  case Nil
  then show ?case by simp
next
  case (Cons d ds)
  then have "is_ascii_digit d" and rest: "list_all is_ascii_digit ds"
    by simp_all
  then have d: "48 \<le> d" "d \<le> 57"
    by (simp_all add: is_ascii_digit_def)
  let ?a = "10 * a + (int d - 48)"
  have a': "0 \<le> ?a" using Cons.prems(2) d by simp
  have le: "?a + 1 \<le> (a + 1) * 10" using d by simp
  from Cons.IH [OF rest a'] have
    lower: "0 \<le> foldl (\<lambda>acc c. 10 * acc + (int c - 48)) ?a ds" and
    upper: "foldl (\<lambda>acc c. 10 * acc + (int c - 48)) ?a ds < (?a + 1) * 10 ^ length ds"
    by blast+
  have "(?a + 1) * 10 ^ length ds \<le> ((a + 1) * 10) * 10 ^ length ds"
    using le by (intro mult_right_mono) simp_all
  with upper have "foldl (\<lambda>acc c. 10 * acc + (int c - 48)) ?a ds < ((a + 1) * 10) * 10 ^ length ds"
    by (rule less_le_trans)
  moreover have "((a + 1) * 10) * 10 ^ length ds = (a + 1) * 10 ^ length (d # ds)"
    by simp
  ultimately have "foldl (\<lambda>acc c. 10 * acc + (int c - 48)) ?a ds < (a + 1) * 10 ^ length (d # ds)"
    by (simp only:)
  with lower show ?case by (simp only: foldl_Cons)
qed

lemma digits_value_bounds:
  "list_all is_ascii_digit ds \<Longrightarrow> 0 \<le> digits_value ds \<and> digits_value ds < 10 ^ length ds"
  using digits_fold_bounds [of ds 0] by (simp add: digits_value_def)

lemma threshold_308: "safe_bound < overflow_threshold"
  by (simp add: overflow_threshold_def safe_bound_def)

lemma those_map_length: "those xs = Some ys \<Longrightarrow> length ys = length xs"
  by (induction xs arbitrary: ys) (auto split: option.splits)

lemma float_of_str_finite:
  assumes "float_of_str U s = Inr x" and "length s \<le> 308"
  shows "is_finite x"
proof -
  from assms(1) obtain a where a: "those (map (ascii_of U) s) = Some a"
    by (auto simp: float_of_str_def split: option.splits)
  then have la: "length a = length s" using those_map_length by fastforce
  define body where "body = (if a \<noteq> [] \<and> hd a = 45 then tl a else a)"
  define int_part where "int_part = takeWhile is_ascii_digit body"
  define rest where "rest = dropWhile is_ascii_digit body"
  define frac_part where "frac_part = (if rest \<noteq> [] \<and> hd rest = 46 then tl rest else rest)"
  define v :: rat where "v = of_int (digits_value int_part)
          + of_int (digits_value frac_part) / 10 ^ length frac_part"
  from assms(1) a have frac: "list_all is_ascii_digit frac_part"
    and x: "x = rnd (if a \<noteq> [] \<and> hd a = 45 then - v else v)"
    by (auto simp: float_of_str_def Let_def body_def int_part_def rest_def frac_part_def v_def
             split: if_splits)
  have ip: "list_all is_ascii_digit int_part"
    by (simp add: int_part_def list_all_iff) (meson set_takeWhileD)
  have "length body \<le> length a" by (simp add: body_def)
  moreover have "length int_part \<le> length body"
    by (simp add: int_part_def length_takeWhile_le)
  ultimately have len: "length int_part \<le> 308" using la assms(2) by simp
  have i: "0 \<le> digits_value int_part" "digits_value int_part + 1 \<le> 10 ^ length int_part"
    using digits_value_bounds [OF ip] by simp_all
  have f: "0 \<le> digits_value frac_part" "digits_value frac_part < 10 ^ length frac_part"
    using digits_value_bounds [OF frac] by simp_all
  have f1: "(of_int (digits_value frac_part) :: rat) / 10 ^ length frac_part < 1"
  proof -
    have "(of_int (digits_value frac_part) :: rat) < of_int (10 ^ length frac_part)"
      using f(2) by (simp only: of_int_less_iff)
    then show ?thesis by simp
  qed
  have f0: "0 \<le> (of_int (digits_value frac_part) :: rat) / 10 ^ length frac_part"
    using f(1) by simp
  have "(of_int (digits_value int_part) :: rat) + 1 \<le> of_int (10 ^ length int_part)"
    using i(2) by (metis of_int_1 of_int_add of_int_le_iff)
  then have i1: "(of_int (digits_value int_part) :: rat) + 1 \<le> 10 ^ length int_part" by simp
  have i0: "0 \<le> (of_int (digits_value int_part) :: rat)" using i(1) by simp
  have "(10::rat) ^ length int_part \<le> safe_bound"
    unfolding safe_bound_def using len by (intro power_increasing) simp_all
  with i1 f1 have "v < safe_bound" unfolding v_def by linarith
  moreover have "0 \<le> v" using i0 f0 by (simp add: v_def)
  ultimately have "\<bar>if a \<noteq> [] \<and> hd a = 45 then - v else v\<bar> < overflow_threshold"
    using threshold_308 by simp
  then show ?thesis unfolding x by (rule rnd_finite)
qed

lemma parse_price_total: "\<exists>r. parse_price U v = Inr r"
proof (cases v)
  case (PStr t)
  show ?thesis
  proof (cases "float_of_str U (replace_char 44 46 (filter (price_char U) t))")
    case (Inl e)
    then have "e = ValueError (replace_char 44 46 (filter (price_char U) t))"
      by (rule float_of_str_raises)
    with Inl PStr show ?thesis by (simp add: parse_price_def Let_def)
  next
    case (Inr x)
    with PStr show ?thesis by (simp add: parse_price_def Let_def)
  qed
qed (simp_all add: parse_price_def)

lemma parse_price_str:
  "parse_price U (PStr s) =
     (if filter (price_char U) s = [] then Inr None
      else Inr (case float_of_str U (replace_char 44 46 (filter (price_char U) s)) of
                  Inl e \<Rightarrow> None | Inr x \<Rightarrow> Some x))"
proof (cases "float_of_str U (replace_char 44 46 (filter (price_char U) s))")
  case (Inl e)
  then have "e = ValueError (replace_char 44 46 (filter (price_char U) s))"
    by (rule float_of_str_raises)
  with Inl show ?thesis by (simp add: parse_price_def Let_def)
next
  case (Inr x)
  then show ?thesis by (simp add: parse_price_def Let_def)
qed

lemma parse_price_value:
  assumes "parse_price U (PStr s) = Inr (Some x)"
  shows "x \<noteq> NaN \<and> (length (filter (price_char U) s) \<le> 308 \<longrightarrow> is_finite x)"
proof -
  let ?d = "replace_char 44 46 (filter (price_char U) s)"
  from assms have f: "float_of_str U ?d = Inr x"
    by (auto simp: parse_price_str split: if_splits sum.splits)
  have "length ?d = length (filter (price_char U) s)" by (simp add: replace_char_def)
  with float_of_str_finite [OF f] float_of_str_not_NaN [OF f] show ?thesis by simp
qed

text \<open>
  C3 (as amended). \<open>parse_price\<close> never raises: on every value it returns a float or
  \<open>None\<close>. On a string it keeps the characters that are digits (\<open>str.isdigit\<close>),
  \<open>.\<close>, \<open>,\<close> or \<open>-\<close>; when none is left the result is \<open>None\<close>; otherwise
  every \<open>,\<close> becomes \<open>.\<close> and the text is converted by \<open>float\<close>, a
  \<open>ValueError\<close> giving \<open>None\<close>. A float returned is never NaN, and it is finite
  whenever at most 308 characters were kept. "EGP 45.50" gives 45.5, an em dash gives
  \<open>None\<close> and "120,00" gives 120.
\<close>

theorem C3_parse_price:
  "(\<exists>r. parse_price U v = Inr r)
   \<and> (filter (price_char U) s = [] \<longrightarrow> parse_price U (PStr s) = Inr None)
   \<and> (filter (price_char U) s \<noteq> [] \<longrightarrow>
        parse_price U (PStr s)
          = Inr (case float_of_str U (replace_char 44 46 (filter (price_char U) s)) of
                   Inl e \<Rightarrow> None | Inr x \<Rightarrow> Some x))
   \<and> (parse_price U (PStr s) = Inr (Some x) \<longrightarrow>
        x \<noteq> NaN \<and> (length (filter (price_char U) s) \<le> 308 \<longrightarrow> is_finite x))
   \<and> (price_char U c \<longleftrightarrow> isdigit U c \<or> c = 46 \<or> c = 44 \<or> c = 45)
   \<and> parse_price U (PStr (str ''EGP 45.50'')) = Inr (Some (Fin (91 / 2)))
   \<and> parse_price unicode_excerpt (PStr [8212]) = Inr None
   \<and> parse_price U (PStr (str ''120,00'')) = Inr (Some (Fin 120))"
proof -
  have pc: "price_char U c \<longleftrightarrow> isdigit U c \<or> c = 46 \<or> c = 44 \<or> c = 45"
    by (auto simp: price_char_def str_def)
  have e: "filter (price_char U) s = [] \<longrightarrow> parse_price U (PStr s) = Inr None"
    by (simp add: parse_price_str)
  have n: "filter (price_char U) s \<noteq> [] \<longrightarrow>
        parse_price U (PStr s)
          = Inr (case float_of_str U (replace_char 44 46 (filter (price_char U) s)) of
                   Inl e \<Rightarrow> None | Inr x \<Rightarrow> Some x)"
    by (simp add: parse_price_str)
  have f: "parse_price U (PStr s) = Inr (Some x) \<longrightarrow>
        x \<noteq> NaN \<and> (length (filter (price_char U) s) \<le> 308 \<longrightarrow> is_finite x)"
    using parse_price_value [of U s x] by blast
  from parse_price_total [of U v] e n f pc
    parse_price_example_1 [of U] parse_price_example_2 parse_price_example_3 [of U]
  show ?thesis by blast
qed

theorem C3_parse_price_witness:
  "filter (price_char unicode_excerpt) (str ''EGP 45.50'') = str ''45.50''
   \<and> parse_price unicode_excerpt (PStr (str ''EGP 45.50'')) = Inr (Some (Fin (91 / 2)))
   \<and> length (filter (price_char unicode_excerpt) (str ''EGP 45.50'')) \<le> 308
   \<and> is_finite (Fin (91 / 2))
   \<and> filter (price_char unicode_excerpt) (str ''EGP'') = []
   \<and> parse_price unicode_excerpt (PStr (str ''EGP'')) = Inr None"
proof -
  have a: "filter (price_char unicode_excerpt) (str ''EGP 45.50'') = str ''45.50''"
    by (simp add: parse_eval)
  have b: "filter (price_char unicode_excerpt) (str ''EGP'') = []"
    by (simp add: parse_eval)
  have c: "is_finite (Fin (91 / 2))" by (simp add: is_finite_def)
  have d: "length (str ''45.50'') \<le> 308" "str ''45.50'' \<noteq> []" by (simp_all add: str_def)
  from a b c d
    C3_parse_price [of unicode_excerpt PNone "str ''EGP 45.50''" "Fin (91 / 2)" 0]
    C3_parse_price [of unicode_excerpt PNone "str ''EGP''" "Fin 0" 0]
  show ?thesis by simp
qed

text \<open>
  The result need not be finite: the digit 2 followed by 308 zeros denotes a number above
  the largest double, and \<open>float\<close> returns the infinity for it.
\<close>

theorem C3_parse_price_counterexample:
  "parse_price unicode_excerpt (PStr (str (CHR ''2'' # replicate 308 CHR ''0''))) = Inr (Some PInf)
   \<and> \<not> is_finite PInf"
  by (simp add: parse_price_overflow is_finite_def)

lemma apply_parse_price_total:
  "apply_parse_price U vs
     = Inr (map (\<lambda>v. case parse_price U v of Inr r \<Rightarrow> to_float_cell r | Inl e \<Rightarrow> NaN) vs)"
proof (induction vs)
  case Nil
  show ?case by simp
next
  case (Cons v vs)
  obtain r where "parse_price U v = Inr r" using parse_price_total by blast
  with Cons show ?case by simp
qed

text \<open>
  C10. On every value that is not a string, \<open>None\<close> and the float NaN among them,
  \<open>parse_price\<close> returns \<open>None\<close> without raising; applied over a whole column it
  returns a column of the same length, with NaN at every cell that was not a string.
\<close>

theorem C10_non_string:
  "(\<not> isinstance_str v \<longrightarrow> parse_price U v = Inr None)
   \<and> parse_price U PNone = Inr None
   \<and> parse_price U (PFloat NaN) = Inr None
   \<and> (\<exists>col. apply_parse_price U vs = Inr col \<and> length col = length vs
        \<and> (\<forall>i < length vs. \<not> isinstance_str (vs ! i) \<longrightarrow> col ! i = NaN))"
proof -
  have a: "\<not> isinstance_str w \<longrightarrow> parse_price U w = Inr None" for w
    by (cases w) (simp_all add: isinstance_str_def parse_price_def)
  have "\<forall>i < length vs. \<not> isinstance_str (vs ! i) \<longrightarrow>
          map (\<lambda>v. case parse_price U v of Inr r \<Rightarrow> to_float_cell r | Inl e \<Rightarrow> NaN) vs ! i = NaN"
    using a by (simp add: to_float_cell_def)
  then have "\<exists>col. apply_parse_price U vs = Inr col \<and> length col = length vs
        \<and> (\<forall>i < length vs. \<not> isinstance_str (vs ! i) \<longrightarrow> col ! i = NaN)"
    by (simp add: apply_parse_price_total)
  with a [of v] show ?thesis by (simp add: parse_price_def)
qed

theorem C10_non_string_witness:
  "parse_price unicode_excerpt PNone = Inr None
   \<and> parse_price unicode_excerpt (PFloat NaN) = Inr None
   \<and> apply_parse_price unicode_excerpt [PStr (str ''120,00''), PNone, PFloat NaN]
       = Inr [Fin 120, NaN, NaN]"
proof -
  have n: "\<not> isinstance_str PNone" "\<not> isinstance_str (PFloat NaN)"
    by (simp_all add: isinstance_str_def)
  have "apply_parse_price unicode_excerpt [PStr (str ''120,00''), PNone, PFloat NaN]
       = Inr [Fin 120, NaN, NaN]"
    using C10_non_string [of PNone unicode_excerpt "[]"] C10_non_string [of "PFloat NaN" unicode_excerpt "[]"] n
    by (simp add: parse_price_example_3 to_float_cell_def)
  with C10_non_string [of PNone unicode_excerpt "[PStr (str ''120,00''), PNone, PFloat NaN]"]
  show ?thesis by simp
qed

section \<open>Properties of the Aggregator\<close>

lemma keep_first_append:
  "keep_first key seen (xs @ ys) = keep_first key seen xs @ keep_first key (seen \<union> key ` set xs) ys"
  by (induction xs arbitrary: seen) (simp_all add: insert_absorb)

lemma keep_first_snoc:
  "keep_first key seen (xs @ [x])
     = keep_first key seen xs @ (if key x \<in> seen \<union> key ` set xs then [] else [x])"
  by (simp add: keep_first_append)

lemma keep_first_keys: "key ` set (keep_first key seen xs) = key ` set xs - seen"
  by (induction xs arbitrary: seen) auto

lemma keep_first_distinct: "distinct (map key (keep_first key seen xs))"
proof (induction xs arbitrary: seen)
  case Nil
  show ?case by simp
next
  case (Cons x xs)
  have "key x \<notin> key ` set (keep_first key (insert (key x) seen) xs)"
    by (simp add: keep_first_keys)
  with Cons show ?case by simp
qed

lemma keep_first_id:
  "distinct (map key xs) \<Longrightarrow> key ` set xs \<inter> seen = {} \<Longrightarrow> keep_first key seen xs = xs"
  by (induction xs arbitrary: seen) auto

lemma keep_first_idem: "keep_first key seen (keep_first key seen xs) = keep_first key seen xs"
  by (rule keep_first_id) (auto simp: keep_first_distinct keep_first_keys)

lemma keep_first_seen: "key ` set xs \<subseteq> seen \<Longrightarrow> keep_first key seen xs = []"
  by (induction xs) auto

lemma keep_first_twice: "keep_first key seen (xs @ xs) = keep_first key seen xs"
  by (simp add: keep_first_append keep_first_seen)

lemma keep_first_find:
  "r \<in> set (keep_first key seen xs) \<Longrightarrow> find (\<lambda>x. key x = key r) xs = Some r"
proof (induction xs arbitrary: seen)
  case Nil
  then show ?case by simp
next
  case (Cons x xs)
  show ?case
  proof (cases "key x = key r")
    case True
    have "key r \<notin> key ` set (keep_first key (insert (key x) seen) xs)"
      using True by (simp add: keep_first_keys)
    moreover have "key r \<notin> key ` set (keep_first key seen xs)" if "key x \<in> seen"
      using that True by (simp add: keep_first_keys)
    ultimately show ?thesis using Cons.prems True by (auto split: if_splits)
  next
    case False
    with Cons show ?thesis by (auto split: if_splits)
  qed
qed

lemma read_frames_append:
  "read_frames rd (ps @ qs) =
     (case read_frames rd ps of
        Inl e \<Rightarrow> Inl e
      | Inr a \<Rightarrow> (case read_frames rd qs of Inl e \<Rightarrow> Inl e | Inr b \<Rightarrow> Inr (a @ b)))"
  by (induction ps) (auto split: sum.splits)

lemma map_zip3: "map f (zip xs (zip (map g xs) (map h xs))) = map (\<lambda>x. f (x, g x, h x)) xs"
  by (induction xs) simp_all

lemma apply_parse_price_numeric: "apply_parse_price U vs = Inr (map (numeric U) vs)"
  by (simp add: apply_parse_price_total numeric_def)

lemma add_columns_eq:
  "add_columns U full =
     Inr (map (\<lambda>r. \<lparr>row = r, price_numeric = numeric U (PStr (price r)),
                     old_price_numeric = numeric U (old_price r),
                     discount_percent = discount (numeric U (PStr (price r))) (numeric U (old_price r))\<rparr>)
              full)"
  using map_zip3 [of "\<lambda>(r, p, old). \<lparr>row = r, price_numeric = p, old_price_numeric = old,
                                        discount_percent = discount p old\<rparr>"
                    full "\<lambda>r. numeric U (PStr (price r))" "\<lambda>r. numeric U (old_price r)"]
  by (simp add: add_columns_def apply_parse_price_numeric comp_def)

lemma discount_expected:
  "discount (numeric U (PStr (price r))) (numeric U (old_price r)) = expected_discount U r"
proof -
  obtain a where a: "parse_price U (PStr (price r)) = Inr a" using parse_price_total by blast
  obtain b where b: "parse_price U (old_price r) = Inr b" using parse_price_total by blast
  have na: "x \<noteq> NaN" if "a = Some x" for x
    using a that parse_price_value [of U "price r" x] by simp
  have nb: "x \<noteq> NaN" if "b = Some x" for x
  proof (cases "old_price r")
    case (PStr t)
    with b that parse_price_value [of U t x] show ?thesis by simp
  next
    case PNone with b that show ?thesis by (simp add: parse_price_def)
  next
    case PFloat with b that show ?thesis by (simp add: parse_price_def)
  next
    case PInt with b that show ?thesis by (simp add: parse_price_def)
  next
    case PBool with b that show ?thesis by (simp add: parse_price_def)
  qed
  show ?thesis
    using na nb
    by (cases a; cases b)
       (simp_all add: discount_def expected_discount_def numeric_def a b to_float_cell_def notna_def
          fgt0_def Let_def)
qed

lemma combine_outputs_rows:
  assumes "combine_outputs U rd files = Inr (Some rows)"
  shows "\<exists>dfs. read_frames rd files = Inr dfs
     \<and> rows = map (\<lambda>r. \<lparr>row = r, price_numeric = numeric U (PStr (price r)),
                     old_price_numeric = numeric U (old_price r),
                     discount_percent = expected_discount U r\<rparr>)
                (drop_duplicates (concat (map frame_rows dfs)))"
  using assms
  by (auto simp: combine_outputs_def add_columns_eq discount_expected split: if_splits sum.splits)

lemma combine_outputs_twice: "combine_outputs U rd (files @ files) = combine_outputs U rd files"
proof (cases "read_frames rd files")
  case (Inl e)
  then show ?thesis
    by (cases "files = []") (simp_all add: combine_outputs_def read_frames_append)
next
  case (Inr dfs)
  have "drop_duplicates (concat (map frame_rows dfs) @ concat (map frame_rows dfs))
          = drop_duplicates (concat (map frame_rows dfs))"
    by (simp add: drop_duplicates_def keep_first_twice)
  with Inr show ?thesis
    by (cases "files = []") (simp_all add: combine_outputs_def read_frames_append)
qed

lemma rnd_75: "rnd 75 = Fin 75"
  by (rule rnd_exact [where j = 6 and m = "75 * 2 ^ 46"]) (simp_all add: pow2_def)

lemma rnd_100: "rnd 100 = Fin 100"
  by (rule rnd_exact [where j = 6 and m = "100 * 2 ^ 46"]) (simp_all add: pow2_def)

lemma discount_75_100: "discount (Fin 75) (Fin 100) = Fin 25"
  by (simp add: discount_def notna_def fgt0_def Let_def fmul_def fdiv_def is_inf_def rnd_25 rnd_quarter)

lemma sample_numeric:
  "numeric unicode_excerpt (PStr (str ''EGP 75'')) = Fin 75"
  "numeric unicode_excerpt (PStr (str ''EGP 100'')) = Fin 100"
  "numeric unicode_excerpt (PStr (str ''120,00'')) = Fin 120"
  "numeric unicode_excerpt PNone = NaN"
  by (simp_all add: numeric_def to_float_cell_def parse_eval rnd_75 rnd_100 rnd_120)

lemma sample_frames:
  "read_frames sample_read [str ''a'', str ''b'', str ''c'']
     = Inr [Table [sample_row ''Rice'' ''EGP 75'' (PStr (str ''EGP 100'')), sample_row ''Tea'' ''120,00'' PNone],
            Table [sample_row ''Rice'' ''EGP 75'' (PStr (str ''EGP 90''))]]"
  by (simp add: sample_read_def str_def is_Exception_def)

lemma sample_dedup:
  "drop_duplicates [sample_row ''Rice'' ''EGP 75'' (PStr (str ''EGP 100'')), sample_row ''Tea'' ''120,00'' PNone,
            sample_row ''Rice'' ''EGP 75'' (PStr (str ''EGP 90''))]
    = [sample_row ''Rice'' ''EGP 75'' (PStr (str ''EGP 100'')), sample_row ''Tea'' ''120,00'' PNone]"
  by (simp add: drop_duplicates_def dedup_key_def sample_row_def str_def)

lemma sample_combined:
  "combine_outputs unicode_excerpt sample_read [str ''a'', str ''b'', str ''c'']
     = Inr (Some [\<lparr>row = sample_row ''Rice'' ''EGP 75'' (PStr (str ''EGP 100'')),
                    price_numeric = Fin 75, old_price_numeric = Fin 100, discount_percent = Fin 25\<rparr>,
                  \<lparr>row = sample_row ''Tea'' ''120,00'' PNone,
                    price_numeric = Fin 120, old_price_numeric = NaN, discount_percent = NaN\<rparr>])"
proof -
  have p: "price (sample_row n p old) = str p" "old_price (sample_row n p old) = old" for n p old
    by (simp_all add: sample_row_def)
  have d: "discount (Fin 120) NaN = NaN" by (simp add: discount_def notna_def)
  show ?thesis
    by (simp only: combine_outputs_def sample_frames)
       (simp add: frame_rows_def sample_dedup add_columns_eq p sample_numeric discount_75_100 d)
qed

text \<open>
  C2. In every row of the combined dataset the two numeric columns hold what
  \<open>parse_price\<close> gives for the row's \<open>price\<close> and \<open>old_price\<close> (NaN where it
  gives \<open>None\<close>), and \<open>discount_percent\<close> is \<open>(old - price) / old * 100\<close>, computed
  in floats, when both prices parse and the old price is greater than zero, and the
  missing value NaN in every other case. An old price of 100 and a price of 75 give
  exactly 25; a missing old price and an old price of 0 give the missing value, which is
  not the number zero.
\<close>

theorem C2_discount:
  "(combine_outputs U read_parquet paths = Inr (Some rows) \<longrightarrow>
      (\<forall>r \<in> set rows.
          price_numeric r = numeric U (PStr (price (row r)))
        \<and> old_price_numeric r = numeric U (old_price (row r))
        \<and> discount_percent r = expected_discount U (row r)))
   \<and> discount (Fin 75) (Fin 100) = Fin 25
   \<and> discount p NaN = NaN
   \<and> discount p (Fin 0) = NaN
   \<and> NaN \<noteq> Fin 0"
proof -
  have "\<forall>r \<in> set rows.
          price_numeric r = numeric U (PStr (price (row r)))
        \<and> old_price_numeric r = numeric U (old_price (row r))
        \<and> discount_percent r = expected_discount U (row r)"
    if "combine_outputs U read_parquet paths = Inr (Some rows)"
    using combine_outputs_rows [OF that] by auto
  moreover have "discount p NaN = NaN" "discount p (Fin 0) = NaN"
    by (simp_all add: discount_def notna_def fgt0_def)
  ultimately show ?thesis using discount_75_100 by blast
qed

theorem C2_discount_witness:
  "combine_outputs unicode_excerpt sample_read [str ''a'', str ''b'', str ''c'']
     = Inr (Some [\<lparr>row = sample_row ''Rice'' ''EGP 75'' (PStr (str ''EGP 100'')),
                    price_numeric = Fin 75, old_price_numeric = Fin 100, discount_percent = Fin 25\<rparr>,
                  \<lparr>row = sample_row ''Tea'' ''120,00'' PNone,
                    price_numeric = Fin 120, old_price_numeric = NaN, discount_percent = NaN\<rparr>])
   \<and> expected_discount unicode_excerpt (sample_row ''Rice'' ''EGP 75'' (PStr (str ''EGP 100''))) = Fin 25
   \<and> expected_discount unicode_excerpt (sample_row ''Tea'' ''120,00'' PNone) = NaN"
  using C2_discount [of unicode_excerpt sample_read "[str ''a'', str ''b'', str ''c'']"
      "[\<lparr>row = sample_row ''Rice'' ''EGP 75'' (PStr (str ''EGP 100'')),
                    price_numeric = Fin 75, old_price_numeric = Fin 100, discount_percent = Fin 25\<rparr>,
                  \<lparr>row = sample_row ''Tea'' ''120,00'' PNone,
                    price_numeric = Fin 120, old_price_numeric = NaN, discount_percent = NaN\<rparr>]" "Fin 0"]
    sample_combined
  by simp

lemma drop_duplicates_pair:
  "drop_duplicates [a, b]
     = (if category_url a = category_url b \<and> location_used a = location_used b
           \<and> name a = name b \<and> quantity a = quantity b \<and> price a = price b
        then [a] else [a, b])"
  by (simp add: drop_duplicates_def dedup_key_def)

lemma combine_outputs_no_columns:
  "read_parquet p = Inr No_columns \<Longrightarrow>
     combine_outputs U read_parquet [p] = Inl (Other_Exception (str ''KeyError''))"
  by (simp add: combine_outputs_def)

text \<open>
  C4. The key of a row is the tuple (category_url, location_used, name, quantity, price):
  of two rows the second is dropped exactly when it agrees with the first in all five
  columns, whatever the other columns hold. \<open>drop_duplicates\<close> goes through the rows in
  order and keeps a row exactly when no earlier row has the same key, so the first
  occurrence stays and later ones go: a row of the result is the first row of the input
  with its key. The keys of the result are distinct, and applying it again changes
  nothing, neither the rows nor their number. The rows of the combined dataset are the
  deduplicated concatenation of the tables read, and giving \<open>combine_outputs\<close> every
  artifact twice yields the same result as giving it once.
\<close>

theorem C4_dedup:
  "dedup_key a = (category_url a, location_used a, name a, quantity a, price a)
   \<and> drop_duplicates [a, b]
        = (if category_url a = category_url b \<and> location_used a = location_used b
              \<and> name a = name b \<and> quantity a = quantity b \<and> price a = price b
           then [a] else [a, b])
   \<and> drop_duplicates [] = []
   \<and> drop_duplicates (xs @ [x])
        = drop_duplicates xs @ (if dedup_key x \<in> dedup_key ` set xs then [] else [x])
   \<and> distinct (map dedup_key (drop_duplicates xs))
   \<and> drop_duplicates (drop_duplicates xs) = drop_duplicates xs
   \<and> length (drop_duplicates (drop_duplicates xs)) = length (drop_duplicates xs)
   \<and> drop_duplicates (xs @ xs) = drop_duplicates xs
   \<and> (r \<in> set (drop_duplicates xs) \<longrightarrow> find (\<lambda>y. dedup_key y = dedup_key r) xs = Some r)
   \<and> (combine_outputs U read_parquet paths = Inr (Some rows) \<longrightarrow>
        (\<exists>dfs. read_frames read_parquet paths = Inr dfs
               \<and> map row rows = drop_duplicates (concat (map frame_rows dfs)))
        \<and> drop_duplicates (map row rows) = map row rows)
   \<and> combine_outputs U read_parquet (paths @ paths)
        = combine_outputs U read_parquet paths"
proof -
  have k: "dedup_key a = (category_url a, location_used a, name a, quantity a, price a)"
    by (simp add: dedup_key_def)
  have a: "drop_duplicates (xs @ [x])
        = drop_duplicates xs @ (if dedup_key x \<in> dedup_key ` set xs then [] else [x])"
    by (simp add: drop_duplicates_def keep_first_snoc)
  have b: "distinct (map dedup_key (drop_duplicates xs))"
    by (simp add: drop_duplicates_def keep_first_distinct)
  have c: "drop_duplicates (drop_duplicates ys) = drop_duplicates ys" for ys
    by (simp add: drop_duplicates_def keep_first_idem)
  have d: "drop_duplicates (xs @ xs) = drop_duplicates xs"
    by (simp add: drop_duplicates_def keep_first_twice)
  have e: "(\<exists>dfs. read_frames read_parquet paths = Inr dfs
               \<and> map row rows = drop_duplicates (concat (map frame_rows dfs)))
        \<and> drop_duplicates (map row rows) = map row rows"
    if "combine_outputs U read_parquet paths = Inr (Some rows)"
  proof -
    from combine_outputs_rows [OF that] obtain dfs where
      "read_frames read_parquet paths = Inr dfs"
      "map row rows = drop_duplicates (concat (map frame_rows dfs))"
      by (auto simp: comp_def)
    then show ?thesis using c [of "concat (map frame_rows dfs)"] by auto
  qed
  have f: "drop_duplicates [] = []" by (simp add: drop_duplicates_def)
  have g: "r \<in> set (drop_duplicates xs) \<longrightarrow> find (\<lambda>y. dedup_key y = dedup_key r) xs = Some r"
    using keep_first_find [of r dedup_key "{}" xs] by (simp add: drop_duplicates_def)
  have h: "length (drop_duplicates (drop_duplicates xs)) = length (drop_duplicates xs)"
    by (simp only: c)
  from k drop_duplicates_pair [of a b] a b c [of xs] h d e f g
    combine_outputs_twice [of U read_parquet paths]
  show ?thesis by blast
qed

theorem C4_dedup_witness:
  "combine_outputs unicode_excerpt sample_read [str ''a'', str ''b'', str ''c'']
     = Inr (Some [\<lparr>row = sample_row ''Rice'' ''EGP 75'' (PStr (str ''EGP 100'')),
                    price_numeric = Fin 75, old_price_numeric = Fin 100, discount_percent = Fin 25\<rparr>,
                  \<lparr>row = sample_row ''Tea'' ''120,00'' PNone,
                    price_numeric = Fin 120, old_price_numeric = NaN, discount_percent = NaN\<rparr>])
   \<and> drop_duplicates [sample_row ''Rice'' ''EGP 75'' (PStr (str ''EGP 100'')), sample_row ''Tea'' ''120,00'' PNone]
       = [sample_row ''Rice'' ''EGP 75'' (PStr (str ''EGP 100'')), sample_row ''Tea'' ''120,00'' PNone]
   \<and> drop_duplicates
        [sample_row ''Rice'' ''EGP 75'' PNone,
         (sample_row ''Rice'' ''EGP 75'' PNone)\<lparr>category_url := str ''c2''\<rparr>,
         (sample_row ''Rice'' ''EGP 75'' PNone)\<lparr>location_used := str ''Giza''\<rparr>,
         (sample_row ''Rice'' ''EGP 75'' PNone)\<lparr>name := str ''Tea''\<rparr>,
         (sample_row ''Rice'' ''EGP 75'' PNone)\<lparr>quantity := str ''2 kg''\<rparr>,
         (sample_row ''Rice'' ''EGP 75'' PNone)\<lparr>price := str ''EGP 80''\<rparr>,
         (sample_row ''Rice'' ''EGP 75'' PNone)
           \<lparr>seen_order := 9, old_price := PStr (str ''EGP 90''), image_url := str ''x.png'',
            out_of_stock := True, sku := str ''42'', timestamp := str ''2025-01-02T10:00:00''\<rparr>]
       = [sample_row ''Rice'' ''EGP 75'' PNone,
          (sample_row ''Rice'' ''EGP 75'' PNone)\<lparr>category_url := str ''c2''\<rparr>,
          (sample_row ''Rice'' ''EGP 75'' PNone)\<lparr>location_used := str ''Giza''\<rparr>,
          (sample_row ''Rice'' ''EGP 75'' PNone)\<lparr>name := str ''Tea''\<rparr>,
          (sample_row ''Rice'' ''EGP 75'' PNone)\<lparr>quantity := str ''2 kg''\<rparr>,
          (sample_row ''Rice'' ''EGP 75'' PNone)\<lparr>price := str ''EGP 80''\<rparr>]"
proof -
  have keys: "drop_duplicates
        [sample_row ''Rice'' ''EGP 75'' PNone,
         (sample_row ''Rice'' ''EGP 75'' PNone)\<lparr>category_url := str ''c2''\<rparr>,
         (sample_row ''Rice'' ''EGP 75'' PNone)\<lparr>location_used := str ''Giza''\<rparr>,
         (sample_row ''Rice'' ''EGP 75'' PNone)\<lparr>name := str ''Tea''\<rparr>,
         (sample_row ''Rice'' ''EGP 75'' PNone)\<lparr>quantity := str ''2 kg''\<rparr>,
         (sample_row ''Rice'' ''EGP 75'' PNone)\<lparr>price := str ''EGP 80''\<rparr>,
         (sample_row ''Rice'' ''EGP 75'' PNone)
           \<lparr>seen_order := 9, old_price := PStr (str ''EGP 90''), image_url := str ''x.png'',
            out_of_stock := True, sku := str ''42'', timestamp := str ''2025-01-02T10:00:00''\<rparr>]
       = [sample_row ''Rice'' ''EGP 75'' PNone,
          (sample_row ''Rice'' ''EGP 75'' PNone)\<lparr>category_url := str ''c2''\<rparr>,
          (sample_row ''Rice'' ''EGP 75'' PNone)\<lparr>location_used := str ''Giza''\<rparr>,
          (sample_row ''Rice'' ''EGP 75'' PNone)\<lparr>name := str ''Tea''\<rparr>,
          (sample_row ''Rice'' ''EGP 75'' PNone)\<lparr>quantity := str ''2 kg''\<rparr>,
          (sample_row ''Rice'' ''EGP 75'' PNone)\<lparr>price := str ''EGP 80''\<rparr>]"
    by (simp add: drop_duplicates_def dedup_key_def sample_row_def str_def)
  have two: "drop_duplicates [sample_row ''Rice'' ''EGP 75'' (PStr (str ''EGP 100'')), sample_row ''Tea'' ''120,00'' PNone]
       = [sample_row ''Rice'' ''EGP 75'' (PStr (str ''EGP 100'')), sample_row ''Tea'' ''120,00'' PNone]"
    by (simp add: drop_duplicates_def dedup_key_def sample_row_def str_def)
  from keys sample_combined two
    C4_dedup [of "sample_row ''Rice'' ''EGP 75'' PNone" "sample_row ''Tea'' ''120,00'' PNone"
      "[]" "sample_row ''Rice'' ''EGP 75'' PNone" "sample_row ''Rice'' ''EGP 75'' PNone"
      unicode_excerpt sample_read "[str ''a'', str ''b'', str ''c'']"
      "[\<lparr>row = sample_row ''Rice'' ''EGP 75'' (PStr (str ''EGP 100'')),
                    price_numeric = Fin 75, old_price_numeric = Fin 100, discount_percent = Fin 25\<rparr>,
                  \<lparr>row = sample_row ''Tea'' ''120,00'' PNone,
                    price_numeric = Fin 120, old_price_numeric = NaN, discount_percent = NaN\<rparr>]"]
  show ?thesis by blast
qed

section \<open>Properties of the Task Orchestrator\<close>

lemma run_task_step:
  assumes "raises_only_Exception t"
  shows "\<exists>st'. run_tasks U output_dir [t] st = Inr st'
     \<and> parquet_files st' = parquet_files st @ collected_path U output_dir t
     \<and> filter is_error_line (printed st') = filter is_error_line (printed st) @ error_line t"
proof -
  obtain cat loc session ts where t: "t = ((cat, loc), session, ts)"
    by (metis prod.exhaust)
  show ?thesis
  proof (cases session)
    case (Inl e)
    with assms t have "is_Exception e" by (simp add: raises_only_Exception_def)
    with Inl t show ?thesis
      by (simp add: scrape_one_category_location_def collect_result_def collected_path_def
            error_line_def is_error_line_def)
  next
    case (Inr r)
    obtain df vendor where r: "r = (df, vendor)" by force
    with Inr t show ?thesis
      by (simp add: scrape_one_category_location_def collect_result_def collected_path_def
            error_line_def is_error_line_def path_truthy_def path_exists_def Let_def)
  qed
qed

lemma run_tasks_Cons:
  "run_tasks U output_dir (t # ts) st =
     (case run_tasks U output_dir [t] st of Inl e \<Rightarrow> Inl e | Inr st' \<Rightarrow> run_tasks U output_dir ts st')"
proof -
  obtain cat loc session ts' where "t = ((cat, loc), session, ts')"
    by (metis prod.exhaust)
  then show ?thesis by (auto split: prod.splits sum.splits)
qed

lemma run_tasks_all:
  assumes "\<forall>t \<in> set ts. raises_only_Exception t"
  shows "\<exists>st'. run_tasks U output_dir ts st = Inr st'
     \<and> parquet_files st' = parquet_files st @ concat (map (collected_path U output_dir) ts)
     \<and> filter is_error_line (printed st')
         = filter is_error_line (printed st) @ concat (map error_line ts)"
  using assms
proof (induction ts arbitrary: st)
  case Nil
  show ?case by simp
next
  case (Cons t ts)
  then have "raises_only_Exception t" by simp
  from run_task_step [OF this, of U output_dir st] obtain st1 where
    s1: "run_tasks U output_dir [t] st = Inr st1"
    "parquet_files st1 = parquet_files st @ collected_path U output_dir t"
    "filter is_error_line (printed st1) = filter is_error_line (printed st) @ error_line t"
    by blast
  from Cons have "\<forall>t \<in> set ts. raises_only_Exception t" by simp
  from Cons.IH [OF this, of st1] obtain st2 where
    s2: "run_tasks U output_dir ts st1 = Inr st2"
    "parquet_files st2 = parquet_files st1 @ concat (map (collected_path U output_dir) ts)"
    "filter is_error_line (printed st2)
         = filter is_error_line (printed st1) @ concat (map error_line ts)"
    by blast
  have "run_tasks U output_dir (t # ts) st = Inr st2"
    by (simp only: run_tasks_Cons [of U output_dir t ts st] s1 s2 sum.case)
  with s1 s2 show ?case by simp
qed

lemma main_not_raised:
  assumes "\<forall>i \<in> set order. \<forall>e. fst (outcome i) = Inl e \<longrightarrow> is_Exception e"
  shows "main U output_dir files0 rd categories locations outcome order \<noteq> Raised e"
proof (cases "build_combos categories locations")
  case (Inl a)
  then show ?thesis by (simp add: main_def)
next
  case (Inr cs)
  let ?tasks = "map (\<lambda>i. (cs ! i, outcome i)) order"
  have "\<forall>t \<in> set ?tasks. raises_only_Exception t"
    using assms by (auto simp: raises_only_Exception_def split: prod.splits sum.splits)
  from run_tasks_all [OF this, of U output_dir "\<lparr>storage = files0, parquet_files = [], printed = []\<rparr>"]
  obtain st' where "run_tasks U output_dir ?tasks \<lparr>storage = files0, parquet_files = [], printed = []\<rparr> = Inr st'"
    by blast
  with Inr show ?thesis by (simp add: main_def)
qed

lemma run_tasks_interrupted:
  "\<not> is_Exception e \<Longrightarrow> run_tasks U output_dir (((cat, loc), Inl e, ts) # rest) st = Inl e"
  by (simp add: scrape_one_category_location_def collect_result_def)

lemma main_result:
  assumes "categories \<noteq> []" and "locations \<noteq> []"
    and "\<forall>i \<in> set order. \<forall>e. fst (outcome i) = Inl e \<longrightarrow> is_Exception e"
  shows "\<exists>lines.
      filter is_error_line lines
        = concat (map error_line (completed_tasks categories locations outcome order))
    \<and> main U output_dir files0 rd categories locations outcome order
        = (if concat (map (collected_path U output_dir)
                        (completed_tasks categories locations outcome order)) = []
           then Aborted No_parquet_outputs (lines @ [No_parquet_outputs_found])
           else Combined
                  (concat (map (collected_path U output_dir)
                             (completed_tasks categories locations outcome order)))
                  lines
                  (combine_outputs U rd
                     (concat (map (collected_path U output_dir)
                                (completed_tasks categories locations outcome order)))))"
proof -
  let ?tasks = "completed_tasks categories locations outcome order"
  let ?st = "\<lparr>storage = files0, parquet_files = [], printed = []\<rparr>"
  have b: "build_combos categories locations = Inr (combos categories locations)"
    using assms(1,2) by (simp add: build_combos_def)
  have "\<forall>t \<in> set ?tasks. raises_only_Exception t"
    using assms(3)
    by (auto simp: completed_tasks_def raises_only_Exception_def split: prod.splits sum.splits)
  from run_tasks_all [OF this, of U output_dir ?st] obtain st' where
    r: "run_tasks U output_dir ?tasks ?st = Inr st'"
    and p: "parquet_files st' = concat (map (collected_path U output_dir) ?tasks)"
    and l: "filter is_error_line (printed st') = concat (map error_line ?tasks)"
    by auto
  have "main U output_dir files0 rd categories locations outcome order
        = (if parquet_files st' = []
           then Aborted No_parquet_outputs (printed st' @ [No_parquet_outputs_found])
           else Combined (parquet_files st') (printed st') (combine_outputs U rd (parquet_files st')))"
    using r by (simp add: main_def b completed_tasks_def)
  with l show ?thesis unfolding p by blast
qed

text \<open>
  C9 (as amended). When the tasks raise nothing but instances of \<open>Exception\<close>, the
  collection loop runs to its end whatever the number of failing tasks: every task that
  raised leaves one error line with its category, its location and the message of the
  exception, every task that returned contributes its path, in completion order, and
  what a task contributes does not depend on the other tasks. In particular the artifact
  of every task that saved a table is in the list of collected paths. \<open>main\<close> then
  hands exactly the paths collected to \<open>combine_outputs\<close> and returns early only when no
  path at all was collected; no exception of a task leaves it. An exception that is not
  an instance of \<open>Exception\<close> passes the handler and ends the run at the task that
  raised it.
\<close>

theorem C9_task_failure_isolated:
  "((\<forall>t \<in> set tasks. raises_only_Exception t) \<longrightarrow>
      (\<exists>st'. run_tasks U output_dir tasks st = Inr st'
         \<and> parquet_files st' = parquet_files st @ concat (map (collected_path U output_dir) tasks)
         \<and> filter is_error_line (printed st')
             = filter is_error_line (printed st) @ concat (map error_line tasks)
         \<and> (\<forall>cat loc e ts. ((cat, loc), Inl e, ts) \<in> set tasks \<longrightarrow>
               Error_in_combo cat loc (message e) \<in> set (printed st'))
         \<and> (\<forall>cat loc df vendor ts. ((cat, loc), Inr (df, vendor), ts) \<in> set tasks \<and> df \<noteq> [] \<longrightarrow>
               path_join output_dir (out_name U vendor loc ts) \<in> set (parquet_files st'))))
   \<and> ((\<forall>i \<in> set order. \<forall>e. fst (outcome i) = Inl e \<longrightarrow> is_Exception e) \<longrightarrow>
        main U output_dir files0 read_parquet categories locations outcome order \<noteq> Raised e')
   \<and> (categories \<noteq> [] \<and> locations \<noteq> []
        \<and> (\<forall>i \<in> set order. \<forall>e. fst (outcome i) = Inl e \<longrightarrow> is_Exception e) \<longrightarrow>
        (\<exists>lines.
            filter is_error_line lines
              = concat (map error_line (completed_tasks categories locations outcome order))
          \<and> main U output_dir files0 read_parquet categories locations outcome order
              = (if concat (map (collected_path U output_dir)
                              (completed_tasks categories locations outcome order)) = []
                 then Aborted No_parquet_outputs (lines @ [No_parquet_outputs_found])
                 else Combined
                        (concat (map (collected_path U output_dir)
                                   (completed_tasks categories locations outcome order)))
                        lines
                        (combine_outputs U read_parquet
                           (concat (map (collected_path U output_dir)
                                      (completed_tasks categories locations outcome order)))))))
   \<and> (\<not> is_Exception e \<longrightarrow>
        run_tasks U output_dir (((cat, loc), Inl e, ts) # rest) st = Inl e)"
proof -
  have "\<exists>st'. run_tasks U output_dir tasks st = Inr st'
         \<and> parquet_files st' = parquet_files st @ concat (map (collected_path U output_dir) tasks)
         \<and> filter is_error_line (printed st')
             = filter is_error_line (printed st) @ concat (map error_line tasks)
         \<and> (\<forall>cat loc e ts. ((cat, loc), Inl e, ts) \<in> set tasks \<longrightarrow>
               Error_in_combo cat loc (message e) \<in> set (printed st'))
         \<and> (\<forall>cat loc df vendor ts. ((cat, loc), Inr (df, vendor), ts) \<in> set tasks \<and> df \<noteq> [] \<longrightarrow>
               path_join output_dir (out_name U vendor loc ts) \<in> set (parquet_files st'))"
    if all: "\<forall>t \<in> set tasks. raises_only_Exception t"
  proof -
    from run_tasks_all [OF all, of U output_dir st] obtain st' where
      r: "run_tasks U output_dir tasks st = Inr st'"
      and p: "parquet_files st' = parquet_files st @ concat (map (collected_path U output_dir) tasks)"
      and l: "filter is_error_line (printed st')
             = filter is_error_line (printed st) @ concat (map error_line tasks)"
      by blast
    have "Error_in_combo cat loc (message e) \<in> set (printed st')"
      if "((cat, loc), Inl e, ts) \<in> set tasks" for cat loc e ts
    proof -
      have "Error_in_combo cat loc (message e) \<in> set (error_line ((cat, loc), Inl e, ts))"
        by (simp add: error_line_def)
      with that have "Error_in_combo cat loc (message e) \<in> set (concat (map error_line tasks))"
        by auto
      then have "Error_in_combo cat loc (message e) \<in> set (filter is_error_line (printed st'))"
        by (simp only: l set_append) blast
      then show ?thesis by simp
    qed
    moreover have "path_join output_dir (out_name U vendor loc ts) \<in> set (parquet_files st')"
      if "((cat, loc), Inr (df, vendor), ts) \<in> set tasks" "df \<noteq> []" for cat loc df vendor ts
    proof -
      have "path_join output_dir (out_name U vendor loc ts)
              \<in> set (collected_path U output_dir ((cat, loc), Inr (df, vendor), ts))"
        using that(2) by (simp add: collected_path_def)
      with that(1) have "path_join output_dir (out_name U vendor loc ts)
              \<in> set (concat (map (collected_path U output_dir) tasks))"
        by auto
      then show ?thesis by (simp only: p set_append) blast
    qed
    ultimately show ?thesis using r p l by blast
  qed
  moreover have "main U output_dir files0 read_parquet categories locations outcome order \<noteq> Raised e'"
    if "\<forall>i \<in> set order. \<forall>e. fst (outcome i) = Inl e \<longrightarrow> is_Exception e"
    using that by (rule main_not_raised)
  moreover note main_result [of categories locations order outcome U output_dir files0 read_parquet]
    run_tasks_interrupted [of e U output_dir cat loc ts rest st]
  ultimately show ?thesis by blast
qed


lemma sample_names:
  "path_join (str ''out'') (out_name unicode_excerpt (str ''Sarai'') (str ''Maadi'') (str ''t0''))
     = str ''out/Sarai__Maadi__t0.parquet''"
  "path_join (str ''out'') (out_name unicode_excerpt (str ''Sarai'') (str ''Zamalek'') (str ''t2''))
     = str ''out/Sarai__Zamalek__t2.parquet''"
  by (simp_all add: path_join_def out_name_def sanitize_eq trim_spaces_def str_def isalnum_def
        classify_def ascii_class_def)

lemma sample_main:
  "main unicode_excerpt (str ''out'') {} sample_store [str ''c1'']
      [str ''Maadi'', str ''Giza'', str ''Zamalek''] sample_outcome [2, 0, 1]
     = Combined [str ''out/Sarai__Zamalek__t2.parquet'', str ''out/Sarai__Maadi__t0.parquet'']
         [Saved_rows 1 (str ''out/Sarai__Zamalek__t2.parquet''),
          Saved_rows 1 (str ''out/Sarai__Maadi__t0.parquet''),
          Error_in_combo (str ''c1'') (str ''Giza'') (str ''Timeout 30000ms exceeded'')]
         (Inr (Some [\<lparr>row = hd (sample_df (str ''Zamalek'')), price_numeric = Fin 75,
                       old_price_numeric = NaN, discount_percent = NaN\<rparr>,
                     \<lparr>row = hd (sample_df (str ''Maadi'')), price_numeric = Fin 75,
                       old_price_numeric = NaN, discount_percent = NaN\<rparr>]))"
proof -
  have df: "sample_df loc \<noteq> []" "length (sample_df loc) = 1" for loc
    by (simp_all add: sample_df_def)
  have run: "run_tasks unicode_excerpt (str ''out'')
        [((str ''c1'', str ''Zamalek''), sample_outcome 2), ((str ''c1'', str ''Maadi''), sample_outcome 0),
         ((str ''c1'', str ''Giza''), sample_outcome 1)]
        \<lparr>storage = {}, parquet_files = [], printed = []\<rparr>
      = Inr \<lparr>storage = {str ''out/Sarai__Maadi__t0.parquet'', str ''out/Sarai__Zamalek__t2.parquet''},
             parquet_files = [str ''out/Sarai__Zamalek__t2.parquet'', str ''out/Sarai__Maadi__t0.parquet''],
             printed = [Saved_rows 1 (str ''out/Sarai__Zamalek__t2.parquet''),
                        Saved_rows 1 (str ''out/Sarai__Maadi__t0.parquet''),
                        Error_in_combo (str ''c1'') (str ''Giza'') (str ''Timeout 30000ms exceeded'')]\<rparr>"
    by (simp add: sample_outcome_def scrape_one_category_location_def collect_result_def df
          path_truthy_def path_exists_def is_Exception_def message_def Let_def sample_names)
  have frames: "read_frames sample_store [str ''out/Sarai__Zamalek__t2.parquet'', str ''out/Sarai__Maadi__t0.parquet'']
      = Inr [Table (sample_df (str ''Zamalek'')), Table (sample_df (str ''Maadi''))]"
    by (simp add: sample_store_def str_def)
  have dd: "drop_duplicates (sample_df (str ''Zamalek'') @ sample_df (str ''Maadi''))
      = [hd (sample_df (str ''Zamalek'')), hd (sample_df (str ''Maadi''))]"
    by (simp add: sample_df_def drop_duplicates_def dedup_key_def sample_row_def str_def)
  have cols: "price (hd (sample_df loc)) = str ''EGP 75''" "old_price (hd (sample_df loc)) = PNone" for loc
    by (simp_all add: sample_df_def sample_row_def)
  have d: "discount (Fin 75) NaN = NaN" by (simp add: discount_def notna_def)
  have comb: "combine_outputs unicode_excerpt sample_store
        [str ''out/Sarai__Zamalek__t2.parquet'', str ''out/Sarai__Maadi__t0.parquet'']
      = Inr (Some [\<lparr>row = hd (sample_df (str ''Zamalek'')), price_numeric = Fin 75,
                       old_price_numeric = NaN, discount_percent = NaN\<rparr>,
                     \<lparr>row = hd (sample_df (str ''Maadi'')), price_numeric = Fin 75,
                       old_price_numeric = NaN, discount_percent = NaN\<rparr>])"
    by (simp only: combine_outputs_def frames)
       (simp add: frame_rows_def dd add_columns_eq cols sample_numeric d)
  have tasks: "map (\<lambda>i. (combos [str ''c1''] [str ''Maadi'', str ''Giza'', str ''Zamalek''] ! i, sample_outcome i)) [2, 0, 1]
      = [((str ''c1'', str ''Zamalek''), sample_outcome 2), ((str ''c1'', str ''Maadi''), sample_outcome 0),
         ((str ''c1'', str ''Giza''), sample_outcome 1)]"
    by (simp add: combos_def)
  have bc: "build_combos [str ''c1''] [str ''Maadi'', str ''Giza'', str ''Zamalek'']
      = Inr (combos [str ''c1''] [str ''Maadi'', str ''Giza'', str ''Zamalek''])"
    by (simp add: build_combos_def)
  show ?thesis
    by (simp only: main_def bc sum.case tasks run) (simp add: comb)
qed

theorem C9_task_failure_isolated_witness:
  "list_all raises_only_Exception sample_tasks
   \<and> run_tasks unicode_excerpt (str ''out'') sample_tasks \<lparr>storage = {}, parquet_files = [], printed = []\<rparr>
      = Inr \<lparr>storage = {path_join (str ''out'') (out_name unicode_excerpt (str ''Sarai'') (str ''Maadi'') (str ''t1'')),
                        path_join (str ''out'') (out_name unicode_excerpt (str ''Sarai'') (str ''Maadi'') (str ''t3''))},
             parquet_files = [path_join (str ''out'') (out_name unicode_excerpt (str ''Sarai'') (str ''Maadi'') (str ''t1'')),
                              path_join (str ''out'') (out_name unicode_excerpt (str ''Sarai'') (str ''Maadi'') (str ''t3''))],
             printed = [Saved_rows 1 (path_join (str ''out'') (out_name unicode_excerpt (str ''Sarai'') (str ''Maadi'') (str ''t1''))),
                        Error_in_combo (str ''c1'') (str ''Giza'') (str ''Timeout 30000ms exceeded''),
                        Saved_rows 1 (path_join (str ''out'') (out_name unicode_excerpt (str ''Sarai'') (str ''Maadi'') (str ''t3'')))]\<rparr>
   \<and> [str ''c1''] \<noteq> [] \<and> [str ''Maadi'', str ''Giza'', str ''Zamalek''] \<noteq> []
   \<and> fst (sample_outcome 1) = Inl (Other_Exception (str ''Timeout 30000ms exceeded''))
   \<and> is_Exception (Other_Exception (str ''Timeout 30000ms exceeded''))
   \<and> main unicode_excerpt (str ''out'') {} sample_store [str ''c1'']
        [str ''Maadi'', str ''Giza'', str ''Zamalek''] sample_outcome [2, 0, 1]
     = Combined [str ''out/Sarai__Zamalek__t2.parquet'', str ''out/Sarai__Maadi__t0.parquet'']
         [Saved_rows 1 (str ''out/Sarai__Zamalek__t2.parquet''),
          Saved_rows 1 (str ''out/Sarai__Maadi__t0.parquet''),
          Error_in_combo (str ''c1'') (str ''Giza'') (str ''Timeout 30000ms exceeded'')]
         (Inr (Some [\<lparr>row = hd (sample_df (str ''Zamalek'')), price_numeric = Fin 75,
                       old_price_numeric = NaN, discount_percent = NaN\<rparr>,
                     \<lparr>row = hd (sample_df (str ''Maadi'')), price_numeric = Fin 75,
                       old_price_numeric = NaN, discount_percent = NaN\<rparr>]))
   \<and> run_tasks unicode_excerpt (str ''out'')
        (((str ''c1'', str ''Maadi''), Inl (Non_Exception (str ''KeyboardInterrupt'')), str ''t0'') # sample_tasks)
        \<lparr>storage = {}, parquet_files = [], printed = []\<rparr>
     = Inl (Non_Exception (str ''KeyboardInterrupt''))"
proof -
  have a: "list_all raises_only_Exception sample_tasks"
    by (simp add: sample_tasks_def raises_only_Exception_def is_Exception_def)
  then have a': "\<forall>t \<in> set sample_tasks. raises_only_Exception t"
    by (simp only: list_all_iff)
  have b: "run_tasks unicode_excerpt (str ''out'') sample_tasks \<lparr>storage = {}, parquet_files = [], printed = []\<rparr>
      = Inr \<lparr>storage = {path_join (str ''out'') (out_name unicode_excerpt (str ''Sarai'') (str ''Maadi'') (str ''t1'')),
                        path_join (str ''out'') (out_name unicode_excerpt (str ''Sarai'') (str ''Maadi'') (str ''t3''))},
             parquet_files = [path_join (str ''out'') (out_name unicode_excerpt (str ''Sarai'') (str ''Maadi'') (str ''t1'')),
                              path_join (str ''out'') (out_name unicode_excerpt (str ''Sarai'') (str ''Maadi'') (str ''t3''))],
             printed = [Saved_rows 1 (path_join (str ''out'') (out_name unicode_excerpt (str ''Sarai'') (str ''Maadi'') (str ''t1''))),
                        Error_in_combo (str ''c1'') (str ''Giza'') (str ''Timeout 30000ms exceeded''),
                        Saved_rows 1 (path_join (str ''out'') (out_name unicode_excerpt (str ''Sarai'') (str ''Maadi'') (str ''t3'')))]\<rparr>"
    by (simp add: sample_tasks_def scrape_one_category_location_def collect_result_def
          path_truthy_def path_exists_def is_Exception_def message_def Let_def insert_commute)
  have c: "fst (sample_outcome 1) = Inl (Other_Exception (str ''Timeout 30000ms exceeded''))"
    "is_Exception (Other_Exception (str ''Timeout 30000ms exceeded''))"
    "\<not> is_Exception (Non_Exception (str ''KeyboardInterrupt''))"
    by (simp_all add: sample_outcome_def is_Exception_def)
  have c': "\<forall>i \<in> set [2, 0, 1]. \<forall>e. fst (sample_outcome i) = Inl e \<longrightarrow> is_Exception e"
    by (simp add: sample_outcome_def is_Exception_def)
  have ne: "[str ''c1''] \<noteq> []" "[str ''Maadi'', str ''Giza'', str ''Zamalek''] \<noteq> []"
    by simp_all
  from a a' b c c' ne sample_main
    C9_task_failure_isolated [of sample_tasks unicode_excerpt "str ''out''"
      "\<lparr>storage = {}, parquet_files = [], printed = []\<rparr>" "[2, 0, 1]" sample_outcome
      "{}" sample_store "[str ''c1'']" "[str ''Maadi'', str ''Giza'', str ''Zamalek'']"
      "Non_Exception (str ''KeyboardInterrupt'')" "Non_Exception (str ''KeyboardInterrupt'')"
      "str ''c1''" "str ''Maadi''" "str ''t0''" sample_tasks]
  show ?thesis by blast
qed

text \<open>
  The claim as stated fails when a task raises an exception that is not an instance of
  \<open>Exception\<close>: the first of two tasks is interrupted, \<open>main\<close> ends with that
  exception, and the table the second task had to save is never collected.
\<close>

theorem C9_task_failure_counterexample:
  "main unicode_excerpt (str ''out'') {} sample_store [str ''c1''] [str ''Maadi'', str ''Giza'']
      interrupted_outcome [0, 1]
     = Raised (Non_Exception (str ''KeyboardInterrupt''))"
  by (simp add: main_def build_combos_def combos_def interrupted_outcome_def
        scrape_one_category_location_def collect_result_def is_Exception_def)

text \<open>
  C1 (what the code does). A task whose extraction yields no record writes no file and
  returns \<open>Path()\<close>. That path is \<open>.\<close>, which is true in a condition and exists, so
  the orchestrator appends it to \<open>parquet_files\<close> instead of printing the warning, and
  \<open>main\<close> hands it to \<open>combine_outputs\<close> even when it is the only path collected.
\<close>

theorem C1_empty_task_collected:
  "scrape_one_category_location U output_dir on_disk cat loc (Inr ([], vendor)) ts
      = (on_disk, [No_products_found], Inr (cat, loc, Path_empty))
   \<and> path_truthy Path_empty \<and> path_exists on_disk Path_empty
   \<and> run_tasks U output_dir [((cat, loc), Inr ([], vendor), ts)]
         \<lparr>storage = on_disk, parquet_files = [], printed = []\<rparr>
      = Inr \<lparr>storage = on_disk, parquet_files = [Path_empty], printed = [No_products_found]\<rparr>
   \<and> main U output_dir on_disk read_parquet [cat] [loc] (\<lambda>i. (Inr ([], vendor), ts)) [0]
      = Combined [Path_empty] [No_products_found] (combine_outputs U read_parquet [Path_empty])"
  by (simp add: scrape_one_category_location_def collect_result_def path_truthy_def
        path_exists_def main_def build_combos_def combos_def)

end
